theory Spec2Isabelle
  imports Main "HOL-Library.Char_ord" "HOL-Library.List_Lexorder" "HOL-Library.AList"
begin

unbundle bit_operations_syntax

section \<open>Content hashing\<close>

text \<open>
  \<^verbatim>\<open>string_sha = lambda s: hashlib.sha1(s.encode('utf8')).hexdigest()\<close>

  Text is a \<^typ>\<open>string\<close>, read as the bytes of its UTF-8 encoding. SHA-1 is written out
  after FIPS 180-4 on 32-bit words kept as \<^typ>\<open>int\<close> with the reduction modulo \<open>2 ^ 32\<close>
  explicit, so that a digest can be evaluated by rewriting.
\<close>

definition add32 :: "int \<Rightarrow> int \<Rightarrow> int" where
  "add32 a b = (a + b) mod 2 ^ 32"

definition rotl :: "nat \<Rightarrow> int \<Rightarrow> int" where
  "rotl n x = (x * 2 ^ n) mod 2 ^ 32 + x div 2 ^ (32 - n)"

definition not32 :: "int \<Rightarrow> int" where
  "not32 x = 2 ^ 32 - 1 - x"

definition be_word :: "int list \<Rightarrow> int" where
  "be_word bs = foldl (\<lambda>acc b. acc * 256 + b) 0 bs"

definition be_bytes8 :: "int \<Rightarrow> int list" where
  "be_bytes8 v = map (\<lambda>k. (v div 256 ^ k) mod 256) [7, 6, 5, 4, 3, 2, 1, 0]"

definition sha1_pad :: "int list \<Rightarrow> int list" where
  "sha1_pad m =
     m @ [128] @ replicate ((119 - length m mod 64) mod 64) 0 @ be_bytes8 (8 * int (length m))"

function chunks :: "nat \<Rightarrow> 'a list \<Rightarrow> 'a list list" where
  "chunks n xs = (if xs = [] \<or> n = 0 then [] else take n xs # chunks n (drop n xs))"
  by pat_completeness auto
termination
  by (relation "measure (\<lambda>(n, xs). length xs)") auto

declare chunks.simps [simp del]

type_synonym sha1_regs = "int \<times> int \<times> int \<times> int \<times> int"

definition sha1_f :: "nat \<Rightarrow> int \<Rightarrow> int \<Rightarrow> int \<Rightarrow> int" where
  "sha1_f i b c d =
     (if i < 20 then (b AND c) OR (not32 b AND d)
      else if i < 40 then b XOR c XOR d
      else if i < 60 then (b AND c) OR (b AND d) OR (c AND d)
      else b XOR c XOR d)"

definition sha1_k :: "nat \<Rightarrow> int" where
  "sha1_k i = (if i < 20 then 0x5A827999 else if i < 40 then 0x6ED9EBA1
               else if i < 60 then 0x8F1BBCDC else 0xCA62C1D6)"

fun sha1_round :: "nat \<Rightarrow> sha1_regs \<times> int list \<Rightarrow> sha1_regs \<times> int list" where
  "sha1_round i ((a, b, c, d, e), ws) =
     ((add32 (add32 (add32 (add32 (rotl 5 a) (sha1_f i b c d)) e) (sha1_k i)) (hd ws),
       a, rotl 30 b, c, d),
      tl ws @ [rotl 1 (ws ! 13 XOR ws ! 8 XOR ws ! 2 XOR ws ! 0)])"

function sha1_rounds :: "nat \<Rightarrow> sha1_regs \<times> int list \<Rightarrow> sha1_regs \<times> int list" where
  "sha1_rounds i s = (if i < 80 then sha1_rounds (i + 1) (sha1_round i s) else s)"
  by pat_completeness auto
termination
  by (relation "measure (\<lambda>(i, s). 80 - i)") auto

declare sha1_rounds.simps [simp del]

fun sha1_block :: "sha1_regs \<Rightarrow> int list \<Rightarrow> sha1_regs" where
  "sha1_block (h0, h1, h2, h3, h4) blk =
     (case fst (sha1_rounds 0 ((h0, h1, h2, h3, h4), map be_word (chunks 4 blk))) of
        (a, b, c, d, e) \<Rightarrow> (add32 h0 a, add32 h1 b, add32 h2 c, add32 h3 d, add32 h4 e))"

definition hexdigit :: "int \<Rightarrow> char" where
  "hexdigit n = ''0123456789abcdef'' ! nat n"

definition hex32 :: "int \<Rightarrow> string" where
  "hex32 w = map (\<lambda>k. hexdigit ((w div 16 ^ k) mod 16)) [7, 6, 5, 4, 3, 2, 1, 0]"

definition string_sha :: "string \<Rightarrow> string" where
  "string_sha s =
     (case foldl sha1_block (0x67452301, 0xEFCDAB89, 0x98BADCFE, 0x10325476, 0xC3D2E1F0)
             (chunks 64 (sha1_pad (map of_char s))) of
        (h0, h1, h2, h3, h4) \<Rightarrow> hex32 h0 @ hex32 h1 @ hex32 h2 @ hex32 h3 @ hex32 h4)"

definition EMPTYSHA :: string where
  "EMPTYSHA = string_sha ''''"

section \<open>Dictionaries, sets and text helpers\<close>

text \<open>
  A Python \<^verbatim>\<open>dict\<close> is an association list with pairwise distinct keys, in the order
  in which \<^verbatim>\<open>items()\<close> enumerates it. \<^verbatim>\<open>d[k] = v\<close> is \<^const>\<open>AList.update\<close>
  (replace in place, or append), \<^verbatim>\<open>d.get(k, x)\<close> is \<open>dict_get\<close>, \<^verbatim>\<open>k in d\<close> is
  \<open>map_of d k \<noteq> None\<close>. A \<^verbatim>\<open>set\<close> that is only tested for membership is a HOL set.
  Where the source iterates over the set \<^verbatim>\<open>set(a.keys()) | set(b.keys())\<close>, whose order
  Python leaves open, the model enumerates \<open>key_union a b\<close>; the results below are
  stated on the set of elements and so hold for every enumeration order.
\<close>

type_synonym ('k, 'v) dict = "('k \<times> 'v) list"

definition keys :: "('k, 'v) dict \<Rightarrow> 'k list" where
  "keys d = map fst d"

definition dict_get :: "('k, 'v) dict \<Rightarrow> 'k \<Rightarrow> 'v \<Rightarrow> 'v" where
  "dict_get d k x = (case map_of d k of None \<Rightarrow> x | Some v \<Rightarrow> v)"

definition key_union :: "('k, 'a) dict \<Rightarrow> ('k, 'b) dict \<Rightarrow> 'k list" where
  "key_union a b = remdups (keys a @ keys b)"

fun join :: "string \<Rightarrow> string list \<Rightarrow> string" where
  "join sep [] = []"
| "join sep [x] = x"
| "join sep (x # y # ys) = x @ sep @ join sep (y # ys)"

definition digit :: "nat \<Rightarrow> char" where
  "digit n = ''0123456789'' ! n"

fun show_nat :: "nat \<Rightarrow> string" where
  "show_nat n = (if n < 10 then [digit n] else show_nat (n div 10) @ [digit (n mod 10)])"

declare show_nat.simps [simp del]

datatype py_error = KeyError | ValueError | AttributeError | IOError | RefusedError

section \<open>Terminal colours\<close>

definition color_names :: "string list" where
  "color_names = [''black'', ''red'', ''green'', ''yellow'', ''blue'', ''magenta'', ''cyan'', ''white'']"

definition attr_names :: "string list" where
  "attr_names = [''reset'', ''bright'', ''dim'', ''underline'', ''blink'', ''reverse'', ''hidden'']"

definition fg_codes :: "(string, nat) dict" where
  "fg_codes = zip color_names [30, 31, 32, 33, 34, 35, 36, 37]"

definition bg_codes :: "(string, nat) dict" where
  "bg_codes = zip color_names [40, 41, 42, 43, 44, 45, 46, 47]"

definition attr_codes :: "(string, nat) dict" where
  "attr_codes = zip attr_names [0, 1, 2, 3, 4, 5, 6, 7, 8]"

definition ESC :: string where
  "ESC = [CHR 0x1B]"

text \<open>
  \<^verbatim>\<open>color_seq(attr='reset', fg=None, bg=None)\<close>, formatting the codes with \<^verbatim>\<open>%d\<close>.
  Every call in the source passes names that are keys of the three tables, so the
  \<^verbatim>\<open>KeyError\<close> of a failed lookup does not arise and the default of \<open>dict_get\<close> is
  never used.
\<close>

definition color_seq :: "string \<Rightarrow> string option \<Rightarrow> string option \<Rightarrow> string" where
  "color_seq attr fg bg =
     (case (fg, bg) of
        (None, None) \<Rightarrow> ESC @ ''['' @ show_nat (dict_get attr_codes attr 0) @ ''m''
      | (Some f, None) \<Rightarrow>
          ESC @ ''['' @ show_nat (dict_get attr_codes attr 0) @ '';'' @
            show_nat (dict_get fg_codes f 0) @ ''m''
      | (_, Some b) \<Rightarrow>
          ESC @ ''['' @ show_nat (dict_get attr_codes attr 0) @ '';'' @
            show_nat (dict_get fg_codes (case fg of None \<Rightarrow> [] | Some f \<Rightarrow> f) 0) @ '';'' @
            show_nat (dict_get bg_codes b 0) @ ''m'')"

section \<open>Data model\<close>

text \<open>
  A snapshot is \<^verbatim>\<open>{table: {'sql': ..., 'sha': ...}}\<close>, as \<^verbatim>\<open>PugPugPG.db_summary\<close> builds
  it; a migration is the dictionary that \<^verbatim>\<open>add_migration\<close> stores in \<^verbatim>\<open>self.seq\<close>.
\<close>

record table_summary =
  sql :: string
  sha :: string

type_synonym snapshot = "(string, table_summary) dict"

type_synonym shas = "(string, string) dict"

record migration =
  comment :: string
  start_shas :: shas
  end_shas :: shas
  sql_sha :: string

text \<open>
  The attributes of a \<^verbatim>\<open>PugPugState\<close> object. \<open>printed\<close> is the text its methods
  have written to standard output, one entry per \<^verbatim>\<open>print\<close> call.
\<close>

record pugpug_state =
  table_transforms :: "(string, (string, string) dict) dict"
  simple_starts :: "(string, string) dict"
  tables :: "(string, (string, string) dict) dict"
  seen :: "string set"
  seq :: "(string, migration) dict"
  printed :: "string list"

subsection \<open>PugPugPG: the snapshot of the live database\<close>

text \<open>
  \<^verbatim>\<open>table_summary\<close> and \<^verbatim>\<open>db_summary\<close>, given the output of \<^verbatim>\<open>pg_dump\<close>: the list of
  tables (\<^verbatim>\<open>list_tables\<close>) and the cleaned schema text of each (\<^verbatim>\<open>show_create\<close>).
\<close>

definition table_summary :: "string \<Rightarrow> table_summary" where
  "table_summary text = \<lparr>sql = text, sha = string_sha text\<rparr>"

definition db_summary :: "string list \<Rightarrow> (string \<Rightarrow> string) \<Rightarrow> snapshot" where
  "db_summary list_tables show_create =
     foldl (\<lambda>d t. AList.update t (table_summary (show_create t)) d) [] list_tables"

section \<open>PugPugState\<close>

definition snap_to_shas :: "snapshot \<Rightarrow> shas" where
  "snap_to_shas snap = map (\<lambda>(t, info). (t, sha info)) snap"

text \<open>
  \<^verbatim>\<open>snap_sha\<close>: the keys are sorted, each is looked up again in the dictionary
  (\<^verbatim>\<open>db_snap[k]\<close>, which cannot fail for a key just enumerated).
\<close>

definition snap_sha :: "shas \<Rightarrow> string" where
  "snap_sha db_snap =
     string_sha (join ''&'' (map (\<lambda>k. k @ ''='' @ dict_get db_snap k []) (sort (keys db_snap))))"

definition init_from_zero :: "bool \<Rightarrow> bool \<Rightarrow> py_error + pugpug_state" where
  "init_from_zero sequence_file_exists force =
     (if sequence_file_exists \<and> \<not> force then Inl RefusedError
      else Inr \<lparr>table_transforms = [], simple_starts = [], tables = [], seen = {}, seq = [],
                printed = []\<rparr>)"

text \<open>The body of the loop of \<^verbatim>\<open>index_migration\<close>, for one table.\<close>

definition index_table :: "string \<Rightarrow> migration \<Rightarrow> pugpug_state \<Rightarrow> string \<Rightarrow> pugpug_state" where
  "index_table slug mig st table =
     (let tt = (if map_of (table_transforms st) table = None
                then AList.update table [] (table_transforms st) else table_transforms st);
          start_sha = dict_get (start_shas mig) table EMPTYSHA;
          end_sha = dict_get (end_shas mig) table EMPTYSHA;
          st1 = st\<lparr>table_transforms := tt, seen := insert end_sha (insert start_sha (seen st))\<rparr>
      in if start_sha \<noteq> end_sha then
           st1\<lparr>table_transforms := AList.update table (AList.update start_sha slug (dict_get tt table [])) tt,
               printed := printed st @
                 (if map_of (dict_get tt table []) start_sha \<noteq> None
                  then [''Warning: multiple transforms for '' @ table @ '':'' @ start_sha,
                        '' TODO: add better support for this.'']
                  else [])\<rparr>
         else st1)"

definition index_migration :: "string \<Rightarrow> migration \<Rightarrow> pugpug_state \<Rightarrow> pugpug_state" where
  "index_migration slug mig st =
     foldl (index_table slug mig)
       (st\<lparr>simple_starts := AList.update (snap_sha (start_shas mig)) slug (simple_starts st)\<rparr>)
       (key_union (start_shas mig) (end_shas mig))"

text \<open>
  The body of the loop of \<^verbatim>\<open>update_table_snaps\<close>. The source enumerates the names of the
  snapshot and reads \<^verbatim>\<open>db_snapshot[name]\<close> for each, which is the enumeration of its items.
\<close>

definition update_table_snap :: "pugpug_state \<Rightarrow> string \<times> table_summary \<Rightarrow> pugpug_state" where
  "update_table_snap st item =
     (case item of (name, table_snap) \<Rightarrow>
        (let tabs = (if map_of (tables st) name = None
                     then AList.update name [] (tables st) else tables st);
             table = dict_get tabs name []
         in if map_of table (sha table_snap) = None
            then st\<lparr>tables := AList.update name
                                  (AList.update (sha table_snap) (sql table_snap) table) tabs\<rparr>
            else st\<lparr>tables := tabs\<rparr>))"

definition update_table_snaps :: "snapshot \<Rightarrow> pugpug_state \<Rightarrow> pugpug_state" where
  "update_table_snaps db_snapshot st = foldl update_table_snap st db_snapshot"

definition add_migration ::
    "string \<Rightarrow> string \<Rightarrow> string \<Rightarrow> snapshot \<Rightarrow> snapshot \<Rightarrow> pugpug_state \<Rightarrow> pugpug_state" where
  "add_migration slug cmt sql_text start_snap end_snap st =
     (let mig = \<lparr>comment = cmt, start_shas = snap_to_shas start_snap,
                 end_shas = snap_to_shas end_snap, sql_sha = string_sha sql_text\<rparr>
      in update_table_snaps end_snap
           (index_migration slug mig (st\<lparr>seq := AList.update slug mig (seq st)\<rparr>)))"

text \<open>
  \<^verbatim>\<open>check_validity\<close>: \<open>violation\<close> is the test made on one name of the loop; a name is
  appended to \<^verbatim>\<open>bad_tables\<close> when it holds. \<^verbatim>\<open>self.seq[slug]\<close> raises \<^verbatim>\<open>KeyError\<close>
  for a slug that is not recorded.
\<close>

definition violation :: "migration \<Rightarrow> shas \<Rightarrow> bool \<Rightarrow> string \<Rightarrow> bool" where
  "violation mig db_shas postrun name =
     (let start = dict_get (start_shas mig) name EMPTYSHA;
          end = dict_get (end_shas mig) name EMPTYSHA
      in start \<noteq> end \<and>
         (if start \<noteq> dict_get db_shas name EMPTYSHA \<and> \<not> postrun then True
          else postrun \<and> end \<noteq> dict_get db_shas name EMPTYSHA))"

definition check_validity ::
    "string \<Rightarrow> snapshot \<Rightarrow> bool \<Rightarrow> pugpug_state \<Rightarrow> py_error + string list option" where
  "check_validity slug db_snap postrun st =
     (let db_shas = snap_to_shas db_snap
      in case map_of (seq st) slug of
           None \<Rightarrow> Inl KeyError
         | Some mig \<Rightarrow>
             (let bad_tables = filter (violation mig db_shas postrun)
                                 (key_union (start_shas mig) (end_shas mig))
              in if length bad_tables \<noteq> 0 then Inr (Some bad_tables) else Inr None))"

definition get_file :: "string \<Rightarrow> string" where
  "get_file slug = ''pugpug/sql/'' @ slug @ ''.sql''"

text \<open>\<^verbatim>\<open>max(self.seq.keys())\<close> raises \<^verbatim>\<open>ValueError\<close> on an empty sequence.\<close>

definition max_key :: "string list \<Rightarrow> py_error + string" where
  "max_key ks = (case ks of [] \<Rightarrow> Inl ValueError | k # ks' \<Rightarrow> Inr (foldl max k ks'))"

definition is_up_to_date :: "snapshot \<Rightarrow> pugpug_state \<Rightarrow> py_error + bool" where
  "is_up_to_date db_snap st =
     (let query_sha = snap_sha (snap_to_shas db_snap)
      in case max_key (keys (seq st)) of
           Inl e \<Rightarrow> Inl e
         | Inr mig_key \<Rightarrow>
             (case map_of (seq st) mig_key of
                None \<Rightarrow> Inl KeyError
              | Some mig \<Rightarrow> Inr (query_sha = snap_sha (end_shas mig))))"

definition find_next_migration_simple :: "snapshot \<Rightarrow> pugpug_state \<Rightarrow> string option" where
  "find_next_migration_simple db_snap st =
     (let query_sha = snap_sha (snap_to_shas db_snap)
      in map_of (simple_starts st) query_sha)"

definition get_slugs :: "pugpug_state \<Rightarrow> string list" where
  "get_slugs st = sort (keys (seq st))"

subsection \<open>Advanced resolution\<close>

text \<open>
  The local lists of \<^verbatim>\<open>find_next_migration_advanced\<close> and the lines it prints.
  \<^verbatim>\<open>untracked\<close> is created by the source and never written.
\<close>

record resolution =
  out :: "string list"
  error :: "string list"
  untracked :: "string list"
  up_to_date :: "string list"
  next_migs :: "(string, string list) dict"

definition transform_of :: "pugpug_state \<Rightarrow> string \<Rightarrow> string \<Rightarrow> string option" where
  "transform_of st table table_sha =
     map_of (dict_get (table_transforms st) table []) table_sha"

text \<open>
  The line printed for a table whose hash is neither the start of a transform nor a hash
  ever seen: one text when the table has a history, another when it has none.
\<close>

definition unknown_line :: "pugpug_state \<Rightarrow> string \<Rightarrow> string \<Rightarrow> string" where
  "unknown_line st table table_sha =
     (if map_of (tables st) table \<noteq> None
      then ''ERROR unknown state: '' @ color_seq ''reset'' (Some ''red'') None @ table @
           color_seq ''reset'' None None @ '': '' @ table_sha
      else ''ERROR unknown table: '' @ color_seq ''reset'' (Some ''red'') None @ table @
           color_seq ''reset'' None None)"

text \<open>The body of the first loop, for one table.\<close>

definition resolve_table :: "pugpug_state \<Rightarrow> shas \<Rightarrow> resolution \<Rightarrow> string \<Rightarrow> resolution" where
  "resolve_table st db_shas r table =
     (let table_sha = dict_get db_shas table EMPTYSHA
      in case transform_of st table table_sha of
           None \<Rightarrow>
             if table_sha \<in> seen st then r\<lparr>up_to_date := up_to_date r @ [table]\<rparr>
             else r\<lparr>out := out r @ [unknown_line st table table_sha],
                    error := error r @ [table]\<rparr>
         | Some next_sha \<Rightarrow>
             r\<lparr>next_migs := AList.update next_sha (dict_get (next_migs r) next_sha [] @ [table])
                                (next_migs r)\<rparr>)"

text \<open>
  The second loop: one precondition check per candidate migration, and the lines printed
  for it.
\<close>

definition report_lines :: "string \<Rightarrow> string list \<Rightarrow> string list option \<Rightarrow> string list" where
  "report_lines m ts bad_tables =
     (let blue = color_seq ''reset'' (Some ''blue'') None;
          reset = color_seq ''reset'' None None;
          y = color_seq ''reset'' (Some ''yellow'') None
      in case bad_tables of
           None \<Rightarrow> [''Migration: '' @ blue @ m @ reset @ '' for tables: '' @ blue @
                      join '', '' ts @ reset]
         | Some bad \<Rightarrow>
             if bad = [] then
               [''Migration: '' @ blue @ m @ reset @ '' for tables: '' @ blue @
                  join '', '' ts @ reset]
             else
               [''Can't run migration: '' @ y @ m @ reset @ '' for tables: '' @ y @
                  join '', '' ts @ reset,
                [CHR 0x09, CHR 0x09] @ ''        tables in violation: '' @ y @
                  join '', '' bad @ reset])"

fun report_migs :: "pugpug_state \<Rightarrow> snapshot \<Rightarrow> (string, string list) dict \<Rightarrow> py_error + string list" where
  "report_migs st db_snap [] = Inr []"
| "report_migs st db_snap ((m, ts) # rest) =
     (case check_validity m db_snap False st of
        Inl e \<Rightarrow> Inl e
      | Inr bad_tables \<Rightarrow>
          (case report_migs st db_snap rest of
             Inl e \<Rightarrow> Inl e
           | Inr ls \<Rightarrow> Inr (report_lines m ts bad_tables @ ls)))"

definition resolve_tables :: "snapshot \<Rightarrow> pugpug_state \<Rightarrow> resolution" where
  "resolve_tables db_snap st =
     foldl (resolve_table st (snap_to_shas db_snap))
       \<lparr>out = [], error = [], untracked = [], up_to_date = [], next_migs = []\<rparr>
       (key_union db_snap (tables st))"

text \<open>
  The result is the lines printed and the value returned: \<^verbatim>\<open>next_migs\<close> when it is not
  empty, otherwise \<^verbatim>\<open>None\<close> (the function ends without a \<^verbatim>\<open>return\<close>).
\<close>

definition find_next_migration_advanced ::
    "snapshot \<Rightarrow> pugpug_state \<Rightarrow> py_error + string list \<times> (string, string list) dict option" where
  "find_next_migration_advanced db_snap st =
     (let r = resolve_tables db_snap st
      in case report_migs st db_snap (next_migs r) of
           Inl e \<Rightarrow> Inl e
         | Inr ls \<Rightarrow>
             Inr (out r @ ls, if length (next_migs r) \<noteq> 0 then Some (next_migs r) else None))"

subsection \<open>Loading the stored state\<close>

text \<open>
  \<^verbatim>\<open>load_all\<close> reads the sequence file and one file per indexed table. The files are
  inputs: \<open>NoFile\<close> when \<^verbatim>\<open>open\<close> fails, \<open>EmptyDoc\<close> when \<^verbatim>\<open>yaml.safe_load\<close> returns
  \<^verbatim>\<open>None\<close> (on which \<^verbatim>\<open>.items()\<close> raises \<^verbatim>\<open>AttributeError\<close>), \<open>Mapping\<close> otherwise.
\<close>

datatype 'a yaml_file = NoFile | EmptyDoc | Mapping 'a

fun load_tables ::
    "(string \<Rightarrow> (string, string) dict option) \<Rightarrow> pugpug_state \<Rightarrow> string list \<Rightarrow> py_error + pugpug_state" where
  "load_tables table_files st [] = Inr st"
| "load_tables table_files st (table # rest) =
     (case table_files table of
        None \<Rightarrow> Inl IOError
      | Some history \<Rightarrow>
          load_tables table_files (st\<lparr>tables := AList.update table history (tables st)\<rparr>) rest)"

definition index_all :: "(string, migration) dict \<Rightarrow> pugpug_state \<Rightarrow> pugpug_state" where
  "index_all items st = foldl (\<lambda>st (slug, mig). index_migration slug mig st) st items"

definition load_all ::
    "(string, migration) dict yaml_file \<Rightarrow> (string \<Rightarrow> (string, string) dict option) \<Rightarrow>
     py_error + pugpug_state" where
  "load_all sequence_file table_files =
     (case sequence_file of
        NoFile \<Rightarrow> Inl IOError
      | EmptyDoc \<Rightarrow> Inl AttributeError
      | Mapping sq \<Rightarrow>
          (let st = index_all sq \<lparr>table_transforms = [], simple_starts = [], tables = [],
                                  seen = {}, seq = sq, printed = []\<rparr>
           in load_tables table_files st (keys (table_transforms st))))"

subsection \<open>Saving the state\<close>

text \<open>
  \<^verbatim>\<open>dump_sorted_yaml\<close> writes one entry per key, in the order of the sorted keys;
  \<^verbatim>\<open>yaml.safe_dump\<close> writes the keys of a nested dictionary in sorted order too. The
  result is what \<^verbatim>\<open>yaml.safe_load\<close> reads back from the file. \<^verbatim>\<open>save_all\<close> opens the
  sequence file and the file of every table of \<^verbatim>\<open>self.tables\<close> for writing, which
  replaces what the file held; the files of other tables stay as they are. Its result
  is the content of the sequence file and the table files after the call.
\<close>

definition dump_sorted_yaml :: "(string, 'v) dict \<Rightarrow> (string, 'v) dict" where
  "dump_sorted_yaml dictionary =
     concat (map (\<lambda>k. case map_of dictionary k of None \<Rightarrow> [] | Some v \<Rightarrow> [(k, v)])
               (sort (keys dictionary)))"

definition dump_migration :: "migration \<Rightarrow> migration" where
  "dump_migration mig =
     mig\<lparr>start_shas := dump_sorted_yaml (start_shas mig),
         end_shas := dump_sorted_yaml (end_shas mig)\<rparr>"

definition save_all ::
    "pugpug_state \<Rightarrow> (string \<Rightarrow> (string, string) dict option) \<Rightarrow>
     (string, migration) dict \<times> (string \<Rightarrow> (string, string) dict option)" where
  "save_all st table_files =
     (dump_sorted_yaml (map (\<lambda>(slug, mig). (slug, dump_migration mig)) (seq st)),
      foldl (\<lambda>files table. files(table \<mapsto> dump_sorted_yaml (dict_get (tables st) table [])))
        table_files (keys (tables st)))"

section \<open>PugPug: the commands\<close>

text \<open>
  \<^verbatim>\<open>datetime.now()\<close> is an input, a naive local date and time; \<open>dt_less\<close> is the order
  of \<^verbatim>\<open>datetime\<close> values. \<^verbatim>\<open>slugify\<close> belongs to a library outside the repository and
  is a parameter. \<open>strftime_slug\<close> is \<^verbatim>\<open>strftime("%Y-%M-%d_%H-%M-%S-")\<close>, for years of
  four digits: \<^verbatim>\<open>%Y\<close> the year, \<^verbatim>\<open>%M\<close> the minute, \<^verbatim>\<open>%d\<close> the day of the month,
  \<^verbatim>\<open>%H\<close> the hour, \<^verbatim>\<open>%S\<close> the second, each of the last four as two digits.
\<close>

record datetime =
  year :: nat
  month :: nat
  day :: nat
  hour :: nat
  minute :: nat
  second :: nat
  microsecond :: nat

definition dt_tuple :: "datetime \<Rightarrow> nat list" where
  "dt_tuple t = [year t, month t, day t, hour t, minute t, second t, microsecond t]"

definition dt_less :: "datetime \<Rightarrow> datetime \<Rightarrow> bool" where
  "dt_less t1 t2 = (dt_tuple t1 < dt_tuple t2)"

definition pad2 :: "nat \<Rightarrow> string" where
  "pad2 n = (if n < 10 then ''0'' @ show_nat n else show_nat n)"

definition strftime_slug :: "datetime \<Rightarrow> string" where
  "strftime_slug t =
     show_nat (year t) @ ''-'' @ pad2 (minute t) @ ''-'' @ pad2 (day t) @ ''_'' @
     pad2 (hour t) @ ''-'' @ pad2 (minute t) @ ''-'' @ pad2 (second t) @ ''-''"

definition mk_slug :: "(string \<Rightarrow> string) \<Rightarrow> datetime \<Rightarrow> string \<Rightarrow> string" where
  "mk_slug slugify now cmt = slugify (strftime_slug now @ take 40 cmt)"

text \<open>
  \<^verbatim>\<open>init\<close>, given what it reads from the database (\<^verbatim>\<open>show_full_create\<close>,
  \<^verbatim>\<open>db_summary\<close>) and from the file system. The state returned is the one handed to
  \<^verbatim>\<open>save_all\<close>.
\<close>

definition init ::
    "(string \<Rightarrow> string) \<Rightarrow> datetime \<Rightarrow> string \<Rightarrow> snapshot \<Rightarrow> bool \<Rightarrow> bool \<Rightarrow> py_error + pugpug_state" where
  "init slugify now full_create db_snap sequence_file_exists force =
     (let cmt = ''Initial Leap.'';
          slug = mk_slug slugify now cmt;
          db_empty = []
      in case init_from_zero sequence_file_exists force of
           Inl e \<Rightarrow> Inl e
         | Inr st \<Rightarrow> Inr (add_migration slug cmt full_create db_empty db_snap st))"

text \<open>
  \<^verbatim>\<open>check\<close> returns \<^verbatim>\<open>None\<close>, a slug, the dictionary of advanced resolution, or
  \<^verbatim>\<open>False\<close>. A slug or a dictionary is used under \<^verbatim>\<open>if(next)\<close>, so an empty one counts
  as absent.
\<close>

datatype check_result =
    Check_None
  | Check_Slug string
  | Check_Migs "(string, string list) dict"
  | Check_False

definition check ::
    "snapshot \<Rightarrow> (string, migration) dict yaml_file \<Rightarrow> (string \<Rightarrow> (string, string) dict option) \<Rightarrow>
     py_error + string list \<times> check_result" where
  "check db_snap sequence_file table_files =
     (case load_all sequence_file table_files of
        Inl e \<Rightarrow> Inl e
      | Inr st \<Rightarrow>
         (case is_up_to_date db_snap st of
            Inl e \<Rightarrow> Inl e
          | Inr True \<Rightarrow>
              Inr (printed st @ [color_seq ''reset'' (Some ''green'') None @ ''Up to date.'' @
                                 color_seq ''reset'' None None], Check_None)
          | Inr False \<Rightarrow>
             (case find_next_migration_simple db_snap st of
                Some (c # cs) \<Rightarrow>
                  Inr (printed st @ [''Next migration (simple): '' @
                         color_seq ''reset'' (Some ''blue'') None @ (c # cs) @
                         color_seq ''reset'' None None], Check_Slug (c # cs))
              | _ \<Rightarrow>
                 (case find_next_migration_advanced db_snap st of
                    Inl e \<Rightarrow> Inl e
                  | Inr (ls, Some (m # ms)) \<Rightarrow>
                      Inr (printed st @ ls @ [''Non-linearizable migrations.''], Check_Migs (m # ms))
                  | Inr (ls, _) \<Rightarrow>
                      Inr (printed st @ ls @ [''No matching migrations found.''], Check_False)))))"

section \<open>States of the engine and vocabulary of the properties\<close>

text \<open>
  The states a \<^verbatim>\<open>PugPugState\<close> object can be in: created by \<^verbatim>\<open>init_from_zero\<close> or by
  \<^verbatim>\<open>load_all\<close>, then changed by \<^verbatim>\<open>add_migration\<close>.
\<close>

inductive reachable :: "pugpug_state \<Rightarrow> bool" where
  from_zero: "init_from_zero sequence_file_exists force = Inr st \<Longrightarrow> reachable st"
| loaded: "load_all sequence_file table_files = Inr st \<Longrightarrow> reachable st"
| added: "reachable st \<Longrightarrow> reachable (add_migration slug cmt sql_text start_snap end_snap st)"

text \<open>
  The same, when every migration is recorded under a slug of its own: the sequence file
  is a dictionary (its keys are distinct) and \<^verbatim>\<open>add_migration\<close> is given a slug that is
  not yet a key of \<^verbatim>\<open>self.seq\<close>.
\<close>

inductive reachable_unique :: "pugpug_state \<Rightarrow> bool" where
  from_zero_u: "init_from_zero sequence_file_exists force = Inr st \<Longrightarrow> reachable_unique st"
| loaded_u: "distinct (keys sq) \<Longrightarrow> load_all (Mapping sq) table_files = Inr st \<Longrightarrow> reachable_unique st"
| added_u: "reachable_unique st \<Longrightarrow> map_of (seq st) slug = None \<Longrightarrow>
     reachable_unique (add_migration slug cmt sql_text start_snap end_snap st)"

text \<open>
  \<open>live_sha\<close> is \<^verbatim>\<open>db_shas.get(table, EMPTYSHA)\<close>, \<open>start_sha_of\<close> and \<open>end_sha_of\<close> are
  \<^verbatim>\<open>mig['start_shas'].get(name, EMPTYSHA)\<close> and \<^verbatim>\<open>mig['end_shas'].get(name, EMPTYSHA)\<close>,
  as \<^verbatim>\<open>check_validity\<close>, \<^verbatim>\<open>index_migration\<close> and \<^verbatim>\<open>find_next_migration_advanced\<close> read
  them. \<open>changed_tables\<close> is the set of names that pass the test \<^verbatim>\<open>start != end\<close> of
  \<^verbatim>\<open>check_validity\<close> and \<^verbatim>\<open>index_migration\<close>. \<open>joint_sha\<close> is the \<^verbatim>\<open>query_sha\<close> of
  \<^verbatim>\<open>find_next_migration_simple\<close> and \<^verbatim>\<open>is_up_to_date\<close>. \<open>history_text\<close> reads
  \<^verbatim>\<open>self.tables[name][sha]\<close>, \<open>None\<close> when either key is missing.
\<close>

definition live_sha :: "snapshot \<Rightarrow> string \<Rightarrow> string" where
  "live_sha db_snap table = dict_get (snap_to_shas db_snap) table EMPTYSHA"

definition start_sha_of :: "migration \<Rightarrow> string \<Rightarrow> string" where
  "start_sha_of mig name = dict_get (start_shas mig) name EMPTYSHA"

definition end_sha_of :: "migration \<Rightarrow> string \<Rightarrow> string" where
  "end_sha_of mig name = dict_get (end_shas mig) name EMPTYSHA"

definition changed_tables :: "migration \<Rightarrow> string set" where
  "changed_tables mig =
     {name \<in> set (key_union (start_shas mig) (end_shas mig)). start_sha_of mig name \<noteq> end_sha_of mig name}"

definition joint_sha :: "snapshot \<Rightarrow> string" where
  "joint_sha db_snap = snap_sha (snap_to_shas db_snap)"

definition history_text :: "pugpug_state \<Rightarrow> string \<Rightarrow> string \<Rightarrow> string option" where
  "history_text st name h = map_of (dict_get (tables st) name []) h"

text \<open>
  \<open>stored_text\<close> reads the text kept under a table and a hash in the table files,
  \<open>None\<close> when the file or the hash is missing.
\<close>

definition stored_text ::
    "(string \<Rightarrow> (string, string) dict option) \<Rightarrow> string \<Rightarrow> string \<Rightarrow> string option" where
  "stored_text table_files name h =
     (case table_files name of None \<Rightarrow> None | Some history \<Rightarrow> map_of history h)"

text \<open>The tables that \<^verbatim>\<open>find_next_migration_advanced\<close> visits, and the warning of
  \<^verbatim>\<open>index_migration\<close>.\<close>

definition visited_tables :: "snapshot \<Rightarrow> pugpug_state \<Rightarrow> string set" where
  "visited_tables db_snap st = set (key_union db_snap (tables st))"

definition multiple_transforms_warning :: "string \<Rightarrow> string \<Rightarrow> string" where
  "multiple_transforms_warning table start_sha =
     ''Warning: multiple transforms for '' @ table @ '':'' @ start_sha"

section \<open>A worked history\<close>

text \<open>
  A database with one table \<^verbatim>\<open>a\<close>, initialised, then changed in two diverging ways from
  the same state; a second table \<^verbatim>\<open>b\<close> that no migration knows. Each hash is the SHA-1 of
  the schema text of the same index.
\<close>

definition sql_a1 :: string where
  "sql_a1 = ''CREATE TABLE a (id integer);''"

definition sha_a1 :: string where
  "sha_a1 = ''70615a6b9b740e9927043ae3eb6175fceadadc63''"

definition sql_a2 :: string where
  "sql_a2 = ''CREATE TABLE a (id integer, name text);''"

definition sha_a2 :: string where
  "sha_a2 = ''1f325a0de8ac69051e61a2f816570c37054b9212''"

definition sql_a3 :: string where
  "sql_a3 = ''CREATE TABLE a (id bigint);''"

definition sha_a3 :: string where
  "sha_a3 = ''d97e4eb2e513041a21c4f32d42f9eda8141310ad''"

definition sql_b1 :: string where
  "sql_b1 = ''CREATE TABLE b (id integer);''"

definition sha_b1 :: string where
  "sha_b1 = ''4947b09a7fd3c1c012427973286d82870511beaf''"

definition summary_a1 :: table_summary where
  "summary_a1 = \<lparr>sql = sql_a1, sha = sha_a1\<rparr>"

definition summary_a2 :: table_summary where
  "summary_a2 = \<lparr>sql = sql_a2, sha = sha_a2\<rparr>"

definition summary_a3 :: table_summary where
  "summary_a3 = \<lparr>sql = sql_a3, sha = sha_a3\<rparr>"

definition summary_b1 :: table_summary where
  "summary_b1 = \<lparr>sql = sql_b1, sha = sha_b1\<rparr>"

definition slug_init :: string where
  "slug_init = ''2013-30-15-10-30-00-initial-leap''"

definition slug_name :: string where
  "slug_name = ''2013-45-16-09-45-10-add-name''"

definition slug_bigint :: string where
  "slug_bigint = ''2013-05-17-14-05-30-widen-id''"

definition zero_state :: pugpug_state where
  "zero_state = \<lparr>table_transforms = [], simple_starts = [], tables = [], seen = {}, seq = [],
                  printed = []\<rparr>"

definition state_init :: pugpug_state where
  "state_init =
     add_migration slug_init ''Initial Leap.'' sql_a1 [] [(''a'', summary_a1)] zero_state"

definition state_name :: pugpug_state where
  "state_name =
     add_migration slug_name ''add name'' ''ALTER TABLE a ADD COLUMN name text;''
       [(''a'', summary_a1)] [(''a'', summary_a2)] state_init"

definition state_branch :: pugpug_state where
  "state_branch =
     add_migration slug_bigint ''widen id'' ''ALTER TABLE a ALTER COLUMN id TYPE bigint;''
       [(''a'', summary_a1)] [(''a'', summary_a3)] state_name"

definition mig_init :: migration where
  "mig_init = \<lparr>comment = ''Initial Leap.'', start_shas = [], end_shas = [(''a'', sha_a1)],
                sql_sha = string_sha sql_a1\<rparr>"

definition mig_name :: migration where
  "mig_name = \<lparr>comment = ''add name'', start_shas = [(''a'', sha_a1)],
                end_shas = [(''a'', sha_a2)],
                sql_sha = string_sha ''ALTER TABLE a ADD COLUMN name text;''\<rparr>"

definition mig_bigint :: migration where
  "mig_bigint = \<lparr>comment = ''widen id'', start_shas = [(''a'', sha_a1)],
                  end_shas = [(''a'', sha_a3)],
                  sql_sha = string_sha ''ALTER TABLE a ALTER COLUMN id TYPE bigint;''\<rparr>"

section \<open>Basic facts\<close>

lemma foldl_preserves:
  assumes "\<And>s x. f (g s x) = f s"
  shows "f (foldl g s xs) = f s"
  using assms by (induction xs arbitrary: s) simp_all

lemma keys_snap_to_shas [simp]: "keys (snap_to_shas snap) = keys snap"
  by (simp add: keys_def snap_to_shas_def case_prod_unfold)

lemma index_table_seq [simp]: "seq (index_table slug mig st t) = seq st"
  by (simp add: index_table_def Let_def)

lemma index_table_tables [simp]: "tables (index_table slug mig st t) = tables st"
  by (simp add: index_table_def Let_def)

lemma index_table_simple_starts [simp]:
  "simple_starts (index_table slug mig st t) = simple_starts st"
  by (simp add: index_table_def Let_def)

lemma index_migration_seq [simp]: "seq (index_migration slug mig st) = seq st"
  by (simp add: index_migration_def foldl_preserves [where f = seq])

lemma index_migration_tables [simp]: "tables (index_migration slug mig st) = tables st"
  by (simp add: index_migration_def foldl_preserves [where f = tables])

lemma index_migration_simple_starts [simp]:
  "simple_starts (index_migration slug mig st) =
     AList.update (snap_sha (start_shas mig)) slug (simple_starts st)"
  by (simp add: index_migration_def foldl_preserves [where f = simple_starts])

lemma update_table_snap_seq [simp]: "seq (update_table_snap st item) = seq st"
  by (simp add: update_table_snap_def Let_def split: prod.splits)

lemma update_table_snap_simple_starts [simp]:
  "simple_starts (update_table_snap st item) = simple_starts st"
  by (simp add: update_table_snap_def Let_def split: prod.splits)

lemma update_table_snap_table_transforms [simp]:
  "table_transforms (update_table_snap st item) = table_transforms st"
  by (simp add: update_table_snap_def Let_def split: prod.splits)

lemma update_table_snap_seen [simp]: "seen (update_table_snap st item) = seen st"
  by (simp add: update_table_snap_def Let_def split: prod.splits)

lemma update_table_snap_printed [simp]: "printed (update_table_snap st item) = printed st"
  by (simp add: update_table_snap_def Let_def split: prod.splits)

lemma update_table_snaps_seq [simp]: "seq (update_table_snaps snap st) = seq st"
  by (simp add: update_table_snaps_def foldl_preserves [where f = seq])

lemma update_table_snaps_simple_starts [simp]:
  "simple_starts (update_table_snaps snap st) = simple_starts st"
  by (simp add: update_table_snaps_def foldl_preserves [where f = simple_starts])

lemma update_table_snaps_table_transforms [simp]:
  "table_transforms (update_table_snaps snap st) = table_transforms st"
  by (simp add: update_table_snaps_def foldl_preserves [where f = table_transforms])

lemma update_table_snaps_seen [simp]: "seen (update_table_snaps snap st) = seen st"
  by (simp add: update_table_snaps_def foldl_preserves [where f = seen])

lemma update_table_snaps_printed [simp]: "printed (update_table_snaps snap st) = printed st"
  by (simp add: update_table_snaps_def foldl_preserves [where f = printed])

lemma add_migration_seq:
  "seq (add_migration slug cmt sql_text start_snap end_snap st) =
     AList.update slug \<lparr>comment = cmt, start_shas = snap_to_shas start_snap,
        end_shas = snap_to_shas end_snap, sql_sha = string_sha sql_text\<rparr> (seq st)"
  by (simp add: add_migration_def Let_def)

lemma load_tables_seq: "load_tables files st ts = Inr st' \<Longrightarrow> seq st' = seq st"
  by (induction ts arbitrary: st) (auto split: option.splits)

lemma index_all_seq [simp]: "seq (index_all items st) = seq st"
  by (simp add: index_all_def foldl_preserves [where f = seq] case_prod_unfold)

lemma load_all_seq: "load_all (Mapping sq) files = Inr st \<Longrightarrow> seq st = sq"
  by (auto simp add: load_all_def Let_def dest!: load_tables_seq)

subsection \<open>Evaluating digests and the worked history\<close>

lemma replicate_numeral_eval: "replicate (numeral k) x = x # replicate (pred_numeral k) x"
  by (simp add: numeral_eq_Suc)

lemmas sha1_eval = string_sha_def sha1_pad_def be_bytes8_def be_word_def chunks.simps
  sha1_rounds.simps sha1_f_def sha1_k_def add32_def rotl_def not32_def hex32_def hexdigit_def
  replicate_numeral_eval

lemma string_sha_empty: "string_sha [] = ''da39a3ee5e6b4b0d3255bfef95601890afd80709''"
  by (simp add: sha1_eval)

lemma EMPTYSHA_value: "EMPTYSHA = ''da39a3ee5e6b4b0d3255bfef95601890afd80709''"
  by (simp add: EMPTYSHA_def string_sha_empty)

lemma snap_sha_nil: "snap_sha [] = EMPTYSHA"
  by (simp add: snap_sha_def keys_def EMPTYSHA_def)

lemma snap_sha_a1_value: "snap_sha [(''a'', sha_a1)] = ''a34b3f573597d7d3e7d95449cf8538ec4519bdf7''"
  by (simp add: snap_sha_def keys_def dict_get_def sha_a1_def sha1_eval)

lemma show_nat_eval:
  "show_nat (numeral k) =
     (if numeral k < (10::nat) then [digit (numeral k)]
      else show_nat (numeral k div 10) @ [digit (numeral k mod 10)])"
  "show_nat 0 = ''0''"
  "show_nat (Suc 0) = ''1''"
  by (simp_all add: show_nat.simps [of 0] show_nat.simps [of "Suc 0"]
        show_nat.simps [of "numeral k"] digit_def)

lemma example_hashes_distinct:
  "sha_a1 \<noteq> EMPTYSHA" "EMPTYSHA \<noteq> sha_a1"
  "sha_a2 \<noteq> EMPTYSHA" "EMPTYSHA \<noteq> sha_a2"
  "sha_a3 \<noteq> EMPTYSHA" "EMPTYSHA \<noteq> sha_a3"
  "sha_b1 \<noteq> EMPTYSHA" "EMPTYSHA \<noteq> sha_b1"
  "sha_a1 \<noteq> sha_a2" "sha_a2 \<noteq> sha_a1"
  "sha_a1 \<noteq> sha_a3" "sha_a3 \<noteq> sha_a1"
  "sha_a1 \<noteq> sha_b1" "sha_b1 \<noteq> sha_a1"
  "sha_a2 \<noteq> sha_a3" "sha_a3 \<noteq> sha_a2"
  "sha_a2 \<noteq> sha_b1" "sha_b1 \<noteq> sha_a2"
  "sha_a3 \<noteq> sha_b1" "sha_b1 \<noteq> sha_a3"
  by (simp_all add: EMPTYSHA_value sha_a1_def sha_a2_def sha_a3_def sha_b1_def)

lemma snap_sha_a_empty_value:
  "snap_sha [(''a'', EMPTYSHA)] = ''ab80b98352ccb5da9267e7f5109e9559e91b16c3''"
  by (simp add: snap_sha_def keys_def dict_get_def EMPTYSHA_value sha1_eval)

lemma snap_sha_a1_b1_value:
  "snap_sha [(''a'', sha_a1), (''b'', sha_b1)] = ''e61b996e69c85a4faf22b71f8abb9583a689159b''"
  by (simp add: snap_sha_def keys_def dict_get_def sha_a1_def sha_b1_def sha1_eval)

lemma string_sha_sql_a1: "string_sha sql_a1 = sha_a1"
  by (simp add: sql_a1_def sha_a1_def sha1_eval)

lemma string_sha_sql_a2: "string_sha sql_a2 = sha_a2"
  by (simp add: sql_a2_def sha_a2_def sha1_eval)

lemma string_sha_sql_a3: "string_sha sql_a3 = sha_a3"
  by (simp add: sql_a3_def sha_a3_def sha1_eval)

lemma string_sha_sql_b1: "string_sha sql_b1 = sha_b1"
  by (simp add: sql_b1_def sha_b1_def sha1_eval)

lemma example_summaries:
  "table_summary sql_a1 = summary_a1" "table_summary sql_a2 = summary_a2"
  "table_summary sql_a3 = summary_a3" "table_summary sql_b1 = summary_b1"
  by (simp_all add: table_summary_def summary_a1_def summary_a2_def summary_a3_def summary_b1_def
        string_sha_sql_a1 string_sha_sql_a2 string_sha_sql_a3 string_sha_sql_b1)

lemma example_joint_hashes_distinct:
  "snap_sha [(''a'', sha_a1)] \<noteq> EMPTYSHA" "EMPTYSHA \<noteq> snap_sha [(''a'', sha_a1)]"
  "snap_sha [(''a'', EMPTYSHA)] \<noteq> EMPTYSHA" "EMPTYSHA \<noteq> snap_sha [(''a'', EMPTYSHA)]"
  "snap_sha [(''a'', EMPTYSHA)] \<noteq> snap_sha [(''a'', sha_a1)]"
  "snap_sha [(''a'', sha_a1)] \<noteq> snap_sha [(''a'', EMPTYSHA)]"
  by (simp_all add: snap_sha_a_empty_value snap_sha_a1_value) (simp_all add: EMPTYSHA_value)

lemma example_slugs_distinct:
  "slug_init \<noteq> slug_name" "slug_name \<noteq> slug_init"
  "slug_init \<noteq> slug_bigint" "slug_bigint \<noteq> slug_init"
  "slug_name \<noteq> slug_bigint" "slug_bigint \<noteq> slug_name"
  by (simp_all add: slug_init_def slug_name_def slug_bigint_def)

lemmas example_defs = zero_state_def summary_a1_def summary_a2_def summary_a3_def summary_b1_def
  mig_init_def mig_name_def mig_bigint_def example_hashes_distinct
  example_joint_hashes_distinct example_slugs_distinct

lemmas engine_eval = add_migration_def index_migration_def index_table_def update_table_snaps_def
  update_table_snap_def snap_to_shas_def key_union_def keys_def dict_get_def Let_def snap_sha_nil

lemma state_init_value:
  "state_init =
     \<lparr>table_transforms = [(''a'', [(EMPTYSHA, slug_init)])],
      simple_starts = [(EMPTYSHA, slug_init)],
      tables = [(''a'', [(sha_a1, sql_a1)])],
      seen = {sha_a1, EMPTYSHA},
      seq = [(slug_init, mig_init)],
      printed = []\<rparr>"
  by (simp add: state_init_def example_defs engine_eval)

lemma state_name_value:
  "state_name =
     \<lparr>table_transforms = [(''a'', [(EMPTYSHA, slug_init), (sha_a1, slug_name)])],
      simple_starts = [(EMPTYSHA, slug_init), (snap_sha [(''a'', sha_a1)], slug_name)],
      tables = [(''a'', [(sha_a1, sql_a1), (sha_a2, sql_a2)])],
      seen = {sha_a2, sha_a1, EMPTYSHA},
      seq = [(slug_init, mig_init), (slug_name, mig_name)],
      printed = []\<rparr>"
  unfolding state_name_def state_init_value
  by (auto simp add: example_defs engine_eval)

lemma state_branch_value:
  "state_branch =
     \<lparr>table_transforms = [(''a'', [(EMPTYSHA, slug_init), (sha_a1, slug_bigint)])],
      simple_starts = [(EMPTYSHA, slug_init), (snap_sha [(''a'', sha_a1)], slug_bigint)],
      tables = [(''a'', [(sha_a1, sql_a1), (sha_a2, sql_a2), (sha_a3, sql_a3)])],
      seen = {sha_a3, sha_a2, sha_a1, EMPTYSHA},
      seq = [(slug_init, mig_init), (slug_name, mig_name), (slug_bigint, mig_bigint)],
      printed = [multiple_transforms_warning ''a'' sha_a1,
                 '' TODO: add better support for this.'']\<rparr>"
  unfolding state_branch_def state_name_value
  by (auto simp add: example_defs engine_eval multiple_transforms_warning_def)

lemma color_seq_eval:
  "color_seq ''reset'' None None = ESC @ ''[0m''"
  "color_seq ''reset'' (Some ''red'') None = ESC @ ''[0;31m''"
  "color_seq ''reset'' (Some ''green'') None = ESC @ ''[0;32m''"
  "color_seq ''reset'' (Some ''yellow'') None = ESC @ ''[0;33m''"
  "color_seq ''reset'' (Some ''blue'') None = ESC @ ''[0;34m''"
  by (simp_all add: color_seq_def dict_get_def attr_codes_def attr_names_def fg_codes_def
        color_names_def show_nat_eval digit_def)

lemmas validity_eval = check_validity_def violation_def changed_tables_def live_sha_def
  start_sha_of_def end_sha_of_def snap_to_shas_def key_union_def keys_def dict_get_def Let_def

section \<open>The validator\<close>

text \<open>
  C2. For a recorded slug, \<^verbatim>\<open>check_validity\<close> before the run reports no violation exactly
  when every table of the change-set of the migration (start hash different from end
  hash) has, in the snapshot, the start hash of the migration; after the run the same
  holds with the end hash; a list of violations holds exactly the tables of the
  change-set whose hash differs; the call does not raise, and whenever a table of the
  change-set differs it returns such a list. A table missing from a dictionary counts
  with the hash of the empty text, as the source reads it.
\<close>

theorem check_validity_change_set:
  assumes "map_of (seq st) slug = Some mig"
  shows "(check_validity slug db_snap False st = Inr None \<longleftrightarrow>
            (\<forall>t \<in> changed_tables mig. live_sha db_snap t = start_sha_of mig t))
       \<and> (check_validity slug db_snap True st = Inr None \<longleftrightarrow>
            (\<forall>t \<in> changed_tables mig. live_sha db_snap t = end_sha_of mig t))
       \<and> (\<forall>postrun bad. check_validity slug db_snap postrun st = Inr (Some bad) \<longrightarrow>
            set bad = {t \<in> changed_tables mig.
                        live_sha db_snap t \<noteq> (if postrun then end_sha_of mig t else start_sha_of mig t)})
       \<and> (\<forall>postrun. \<exists>res. check_validity slug db_snap postrun st = Inr res)
       \<and> (\<forall>postrun.
            (\<exists>t \<in> changed_tables mig.
               live_sha db_snap t \<noteq> (if postrun then end_sha_of mig t else start_sha_of mig t)) \<longrightarrow>
            (\<exists>bad. check_validity slug db_snap postrun st = Inr (Some bad) \<and>
               set bad = {t \<in> changed_tables mig.
                  live_sha db_snap t \<noteq> (if postrun then end_sha_of mig t else start_sha_of mig t)}))"
proof -
  let ?names = "key_union (start_shas mig) (end_shas mig)"
  let ?bad = "\<lambda>postrun. filter (violation mig (snap_to_shas db_snap) postrun) ?names"
  let ?mis = "\<lambda>postrun. {t \<in> changed_tables mig.
                  live_sha db_snap t \<noteq> (if postrun then end_sha_of mig t else start_sha_of mig t)}"
  have c: "\<And>postrun. check_validity slug db_snap postrun st =
             (if ?bad postrun \<noteq> [] then Inr (Some (?bad postrun)) else Inr None)"
    using assms by (simp add: check_validity_def Let_def)
  have s: "\<And>postrun. set (?bad postrun) = ?mis postrun"
    by (auto simp add: violation_def changed_tables_def live_sha_def start_sha_of_def
          end_sha_of_def Let_def split: if_splits)
  have e: "\<And>postrun. (?bad postrun = []) = (?mis postrun = {})"
    using s by (metis set_empty)
  have 1: "check_validity slug db_snap False st = Inr None \<longleftrightarrow>
            (\<forall>t \<in> changed_tables mig. live_sha db_snap t = start_sha_of mig t)"
    using e [of False] by (auto simp add: c)
  have 2: "check_validity slug db_snap True st = Inr None \<longleftrightarrow>
            (\<forall>t \<in> changed_tables mig. live_sha db_snap t = end_sha_of mig t)"
    using e [of True] by (auto simp add: c)
  have 3: "\<forall>postrun bad. check_validity slug db_snap postrun st = Inr (Some bad) \<longrightarrow>
            set bad = ?mis postrun"
    using s by (auto simp add: c split: if_splits)
  have 4: "\<forall>postrun. \<exists>res. check_validity slug db_snap postrun st = Inr res"
    by (simp add: c)
  have 5: "\<forall>postrun. (\<exists>t \<in> changed_tables mig.
               live_sha db_snap t \<noteq> (if postrun then end_sha_of mig t else start_sha_of mig t)) \<longrightarrow>
            (\<exists>bad. check_validity slug db_snap postrun st = Inr (Some bad) \<and> set bad = ?mis postrun)"
  proof (intro allI impI)
    fix postrun
    assume "\<exists>t \<in> changed_tables mig.
               live_sha db_snap t \<noteq> (if postrun then end_sha_of mig t else start_sha_of mig t)"
    then have "?mis postrun \<noteq> {}" by blast
    with e have "?bad postrun \<noteq> []" by simp
    then have "check_validity slug db_snap postrun st = Inr (Some (?bad postrun))"
      by (simp add: c)
    with s show "\<exists>bad. check_validity slug db_snap postrun st = Inr (Some bad) \<and> set bad = ?mis postrun"
      by blast
  qed
  from 1 2 3 4 5 show ?thesis by (intro conjI)
qed

theorem check_validity_change_set_witness:
  "map_of (seq state_name) slug_name = Some mig_name
   \<and> changed_tables mig_name = {''a''}
   \<and> check_validity slug_name [(''a'', summary_a1)] False state_name = Inr None
   \<and> live_sha [(''a'', summary_a1)] ''a'' = start_sha_of mig_name ''a''
   \<and> check_validity slug_name [(''a'', summary_a1)] True state_name = Inr (Some [''a''])
   \<and> {t \<in> changed_tables mig_name. live_sha [(''a'', summary_a1)] t \<noteq> end_sha_of mig_name t} = {''a''}
   \<and> live_sha [(''a'', summary_a1)] ''a'' \<noteq> end_sha_of mig_name ''a''
   \<and> (\<exists>bad. check_validity slug_name [(''a'', summary_a1)] True state_name = Inr (Some bad) \<and>
          set bad = {t \<in> changed_tables mig_name.
                       live_sha [(''a'', summary_a1)] t \<noteq> (if True then end_sha_of mig_name t
                                                               else start_sha_of mig_name t)})"
proof -
  have h: "map_of (seq state_name) slug_name = Some mig_name"
    by (simp add: state_name_value example_defs)
  have c: "changed_tables mig_name = {''a''}"
    by (auto simp add: validity_eval example_defs)
  have pre: "check_validity slug_name [(''a'', summary_a1)] False state_name = Inr None"
    by (simp add: state_name_value validity_eval example_defs)
  have post: "check_validity slug_name [(''a'', summary_a1)] True state_name = Inr (Some [''a''])"
    by (simp add: state_name_value validity_eval example_defs)
  have d: "live_sha [(''a'', summary_a1)] ''a'' \<noteq> end_sha_of mig_name ''a''"
    by (simp add: validity_eval example_defs)
  note inst = check_validity_change_set [OF h, of "[(''a'', summary_a1)]"]
  note inst1 = inst [THEN conjunct1]
  note inst3 = inst [THEN conjunct2, THEN conjunct2, THEN conjunct1]
  note inst5 = inst [THEN conjunct2, THEN conjunct2, THEN conjunct2, THEN conjunct2, THEN spec,
      of True]
  from inst1 pre have "\<forall>t \<in> changed_tables mig_name. live_sha [(''a'', summary_a1)] t = start_sha_of mig_name t"
    by blast
  with c have a: "live_sha [(''a'', summary_a1)] ''a'' = start_sha_of mig_name ''a''"
    by blast
  from inst3 post have b: "{t \<in> changed_tables mig_name. live_sha [(''a'', summary_a1)] t \<noteq> end_sha_of mig_name t} = {''a''}"
    by fastforce
  from c d have "\<exists>t \<in> changed_tables mig_name.
      live_sha [(''a'', summary_a1)] t \<noteq> (if True then end_sha_of mig_name t else start_sha_of mig_name t)"
    by simp
  with inst5 have e: "\<exists>bad. check_validity slug_name [(''a'', summary_a1)] True state_name = Inr (Some bad) \<and>
          set bad = {t \<in> changed_tables mig_name.
                       live_sha [(''a'', summary_a1)] t \<noteq> (if True then end_sha_of mig_name t
                                                               else start_sha_of mig_name t)}"
    by (rule mp)
  from h c pre a post b d e show ?thesis by (intro conjI)
qed

section \<open>Recording a migration\<close>

text \<open>
  C4, as stated: every record made by \<^verbatim>\<open>add_migration\<close>, the first one made by
  \<^verbatim>\<open>init\<close> included, has the same tables as keys of its start hashes and of its end
  hashes. The record of the first migration of the worked history, made from the empty
  start snapshot as \<^verbatim>\<open>init\<close> makes it, has no key on the start side and one on the end
  side.
\<close>

theorem init_record_key_sets_differ:
  "map_of (seq state_init) slug_init = Some mig_init
   \<and> set (keys (start_shas mig_init)) = {} \<and> set (keys (end_shas mig_init)) = {''a''}
   \<and> set (keys (start_shas mig_init)) \<noteq> set (keys (end_shas mig_init))"
  by (simp add: state_init_value mig_init_def keys_def)

text \<open>
  C4, amended: the record that \<^verbatim>\<open>add_migration\<close> stores under the slug has the tables of
  the start snapshot as keys of its start hashes and the tables of the end snapshot as
  keys of its end hashes; the record made by \<^verbatim>\<open>init\<close> has no start key and the tables
  of the live database as end keys.
\<close>

theorem add_migration_record_keys:
  "(\<exists>mig. map_of (seq (add_migration slug cmt sql_text start_snap end_snap st)) slug = Some mig
        \<and> keys (start_shas mig) = keys start_snap \<and> keys (end_shas mig) = keys end_snap)
   \<and> (\<forall>st'. init slugify now full_create db_snap sequence_file_exists force = Inr st' \<longrightarrow>
        (\<exists>mig. map_of (seq st') (mk_slug slugify now ''Initial Leap.'') = Some mig
           \<and> keys (start_shas mig) = [] \<and> keys (end_shas mig) = keys db_snap))"
  by (auto simp add: add_migration_seq update_conv init_def Let_def keys_def [of "[]"]
        split: sum.splits)

theorem add_migration_record_keys_witness:
  "init (\<lambda>s. s) \<lparr>year = 2013, month = 1, day = 15, hour = 10, minute = 30, second = 0, microsecond = 0\<rparr>
      sql_a1 [(''a'', summary_a1)] False False =
     Inr (add_migration ''2013-30-15_10-30-00-Initial Leap.'' ''Initial Leap.'' sql_a1 [] [(''a'', summary_a1)] zero_state)
   \<and> (\<exists>mig. map_of (seq (add_migration ''2013-30-15_10-30-00-Initial Leap.'' ''Initial Leap.'' sql_a1 [] [(''a'', summary_a1)] zero_state))
               ''2013-30-15_10-30-00-Initial Leap.'' = Some mig
           \<and> keys (start_shas mig) = [] \<and> keys (end_shas mig) = [''a''])"
proof -
  let ?now = "\<lparr>year = 2013, month = 1, day = 15, hour = 10, minute = 30, second = 0, microsecond = 0\<rparr>"
  let ?st = "add_migration ''2013-30-15_10-30-00-Initial Leap.'' ''Initial Leap.'' sql_a1 [] [(''a'', summary_a1)] zero_state"
  have s: "mk_slug (\<lambda>s. s) ?now ''Initial Leap.'' = ''2013-30-15_10-30-00-Initial Leap.''"
    by (simp add: mk_slug_def strftime_slug_def pad2_def show_nat_eval digit_def)
  have h: "init (\<lambda>s. s) ?now sql_a1 [(''a'', summary_a1)] False False = Inr ?st"
    by (simp add: init_def init_from_zero_def zero_state_def Let_def mk_slug_def strftime_slug_def
          pad2_def show_nat_eval digit_def)
  have k: "keys [(''a'', summary_a1)] = [''a'']" by (simp add: keys_def)
  from add_migration_record_keys [of _ _ _ _ _ _ "\<lambda>s. s" ?now sql_a1 "[(''a'', summary_a1)]" False False] h
  have "\<exists>mig. map_of (seq ?st) (mk_slug (\<lambda>s. s) ?now ''Initial Leap.'') = Some mig
           \<and> keys (start_shas mig) = [] \<and> keys (end_shas mig) = keys [(''a'', summary_a1)]"
    by blast
  with h s k show ?thesis by simp
qed

section \<open>Slugs\<close>

text \<open>
  C5. The timestamp put in front of a slug should sort as the creation times do. The
  format of \<^verbatim>\<open>mk_slug\<close> writes the minute where the month belongs: of two times of the
  same year, the later one, in February, gets the smaller prefix, and two times that
  differ in the month only get the same slug for the same comment, whatever
  \<^verbatim>\<open>slugify\<close> does.
\<close>

theorem mk_slug_not_chronological:
  "dt_less \<lparr>year = 2013, month = 1, day = 15, hour = 10, minute = 59, second = 0, microsecond = 0\<rparr>
           \<lparr>year = 2013, month = 2, day = 15, hour = 10, minute = 0, second = 0, microsecond = 0\<rparr>
   \<and> strftime_slug \<lparr>year = 2013, month = 1, day = 15, hour = 10, minute = 59, second = 0, microsecond = 0\<rparr>
        = ''2013-59-15_10-59-00-''
   \<and> strftime_slug \<lparr>year = 2013, month = 2, day = 15, hour = 10, minute = 0, second = 0, microsecond = 0\<rparr>
        = ''2013-00-15_10-00-00-''
   \<and> ''2013-00-15_10-00-00-'' < ''2013-59-15_10-59-00-''
   \<and> (\<forall>slugify cmt.
         mk_slug slugify \<lparr>year = 2013, month = 1, day = 15, hour = 10, minute = 59, second = 0, microsecond = 0\<rparr> cmt =
         mk_slug slugify \<lparr>year = 2013, month = 2, day = 15, hour = 10, minute = 59, second = 0, microsecond = 0\<rparr> cmt)"
  by (simp add: dt_less_def dt_tuple_def mk_slug_def strftime_slug_def pad2_def show_nat_eval digit_def)

section \<open>The joint hash\<close>

text \<open>
  C8. Two dictionaries of hashes that hold the same (table, hash) pairs, in whatever
  order, have the same \<^verbatim>\<open>snap_sha\<close>.
\<close>

theorem snap_sha_order_independent:
  assumes "distinct (keys a)" and "distinct (keys b)" and "set a = set b"
  shows "snap_sha a = snap_sha b"
proof -
  from assms have m: "map_of a = map_of b"
    by (simp add: keys_def map_of_inject_set)
  from assms(3) have "set (keys a) = set (keys b)" by (simp add: keys_def)
  with assms(1,2) have "sort (keys a) = sort (keys b)"
    by (metis distinct_remdups_id sorted_list_of_set_sort_remdups)
  with m show ?thesis by (simp add: snap_sha_def dict_get_def)
qed

theorem snap_sha_order_independent_witness:
  "distinct (keys [(''a'', sha_a1), (''b'', sha_b1)]) \<and> distinct (keys [(''b'', sha_b1), (''a'', sha_a1)])
   \<and> set [(''a'', sha_a1), (''b'', sha_b1)] = set [(''b'', sha_b1), (''a'', sha_a1)]
   \<and> [(''a'', sha_a1), (''b'', sha_b1)] \<noteq> [(''b'', sha_b1), (''a'', sha_a1)]
   \<and> snap_sha [(''a'', sha_a1), (''b'', sha_b1)] = snap_sha [(''b'', sha_b1), (''a'', sha_a1)]"
proof -
  have d1: "distinct (keys [(''a'', sha_a1), (''b'', sha_b1)])" by (simp add: keys_def)
  have d2: "distinct (keys [(''b'', sha_b1), (''a'', sha_a1)])" by (simp add: keys_def)
  have e: "set [(''a'', sha_a1), (''b'', sha_b1)] = set [(''b'', sha_b1), (''a'', sha_a1)]" by auto
  have n: "[(''a'', sha_a1), (''b'', sha_b1)] \<noteq> [(''b'', sha_b1), (''a'', sha_a1)]" by simp
  from d1 d2 e n snap_sha_order_independent [OF d1 d2 e] show ?thesis by blast
qed

section \<open>The up-to-date check\<close>

text \<open>
  C10. On a state without any migration \<^verbatim>\<open>is_up_to_date\<close> raises \<^verbatim>\<open>ValueError\<close>
  (the maximum of no key); it never answers for such a state, and the \<^verbatim>\<open>check\<close>
  command returns a result only if the sequence file holds at least one migration.
\<close>

theorem is_up_to_date_needs_a_migration:
  "(seq st = [] \<longrightarrow> is_up_to_date db_snap st = Inl ValueError)
   \<and> (\<forall>b. is_up_to_date db_snap st = Inr b \<longrightarrow> seq st \<noteq> [])
   \<and> (\<forall>r. check db_snap sequence_file table_files = Inr r \<longrightarrow>
         (\<exists>sq. sequence_file = Mapping sq \<and> sq \<noteq> []))"
proof (intro conjI allI impI)
  assume "seq st = []"
  then show "is_up_to_date db_snap st = Inl ValueError"
    by (simp add: is_up_to_date_def max_key_def keys_def)
next
  fix b assume "is_up_to_date db_snap st = Inr b"
  then show "seq st \<noteq> []"
    by (auto simp add: is_up_to_date_def max_key_def keys_def)
next
  fix r assume c: "check db_snap sequence_file table_files = Inr r"
  then obtain st' where l: "load_all sequence_file table_files = Inr st'"
    and u: "is_up_to_date db_snap st' \<noteq> Inl ValueError"
    by (auto simp add: check_def split: sum.splits bool.splits)
  from l obtain sq where m: "sequence_file = Mapping sq"
    by (cases sequence_file) (auto simp add: load_all_def)
  with l have "seq st' = sq" by (simp add: load_all_seq)
  with u have "sq \<noteq> []"
    by (auto simp add: is_up_to_date_def max_key_def keys_def)
  with m show "\<exists>sq. sequence_file = Mapping sq \<and> sq \<noteq> []" by simp
qed

theorem is_up_to_date_needs_a_migration_witness:
  "seq zero_state = [] \<and> is_up_to_date [(''a'', summary_a1)] zero_state = Inl ValueError
   \<and> is_up_to_date [(''a'', summary_a1)] state_init = Inr True \<and> seq state_init \<noteq> []
   \<and> check [(''a'', summary_a1)] (Mapping [(slug_init, mig_init)])
        (\<lambda>t. if t = ''a'' then Some [(sha_a1, sql_a1)] else None) =
       Inr ([ESC @ ''[0;32mUp to date.'' @ ESC @ ''[0m''], Check_None)
   \<and> check [(''a'', summary_a1)] (Mapping []) (\<lambda>t. None) = Inl ValueError"
proof -
  have z: "seq zero_state = []" by (simp add: zero_state_def)
  have u: "is_up_to_date [(''a'', summary_a1)] state_init = Inr True"
    by (simp add: is_up_to_date_def max_key_def state_init_value keys_def snap_to_shas_def
          example_defs)
  have l: "load_all (Mapping [(slug_init, mig_init)])
             (\<lambda>t. if t = ''a'' then Some [(sha_a1, sql_a1)] else None) = Inr state_init"
    by (simp add: load_all_def index_all_def state_init_value example_defs engine_eval)
  have p: "printed state_init = []" by (simp add: state_init_value)
  have c: "check [(''a'', summary_a1)] (Mapping [(slug_init, mig_init)])
        (\<lambda>t. if t = ''a'' then Some [(sha_a1, sql_a1)] else None) =
       Inr ([ESC @ ''[0;32mUp to date.'' @ ESC @ ''[0m''], Check_None)"
    by (simp add: check_def l u p color_seq_eval)
  have e: "check [(''a'', summary_a1)] (Mapping []) (\<lambda>t. None) = Inl ValueError"
    by (simp add: check_def load_all_def index_all_def keys_def is_up_to_date_def max_key_def)
  note inst0 = is_up_to_date_needs_a_migration [of zero_state "[(''a'', summary_a1)]"]
  note inst1 = is_up_to_date_needs_a_migration [of state_init "[(''a'', summary_a1)]"]
  from inst0 z have a: "is_up_to_date [(''a'', summary_a1)] zero_state = Inl ValueError" by blast
  from inst1 u have b: "seq state_init \<noteq> []" by blast
  from z a u b c e show ?thesis by blast
qed

section \<open>The table history store\<close>




lemma history_text_index_migration [simp]:
  "history_text (index_migration slug mig st) name h = history_text st name h"
  by (simp add: history_text_def)



section \<open>The transform index\<close>

lemma dict_get_update:
  "dict_get (AList.update k v d) k' x = (if k' = k then v else dict_get d k' x)"
  by (simp add: dict_get_def update_conv')

lemma transform_of_index_table:
  "transform_of (index_table slug mig st t') t h =
     (if t = t' \<and> start_sha_of mig t' \<noteq> end_sha_of mig t' \<and> h = start_sha_of mig t'
      then Some slug else transform_of st t h)"
  by (auto simp add: transform_of_def index_table_def Let_def dict_get_update update_conv'
        start_sha_of_def end_sha_of_def)
     (auto simp add: dict_get_def)

lemma printed_index_table:
  "printed (index_table slug mig st t') =
     printed st @
       (if start_sha_of mig t' \<noteq> end_sha_of mig t' \<and> transform_of st t' (start_sha_of mig t') \<noteq> None
        then [multiple_transforms_warning t' (start_sha_of mig t'),
              '' TODO: add better support for this.'']
        else [])"
  by (auto simp add: transform_of_def index_table_def Let_def dict_get_update
        start_sha_of_def end_sha_of_def multiple_transforms_warning_def)
     (auto simp add: dict_get_def)

lemma transform_of_foldl_index_table:
  "transform_of (foldl (index_table slug mig) st ts) t h =
     (if t \<in> set ts \<and> start_sha_of mig t \<noteq> end_sha_of mig t \<and> h = start_sha_of mig t
      then Some slug else transform_of st t h)"
  by (induction ts arbitrary: st) (auto simp add: transform_of_index_table)

lemma printed_foldl_index_table_mono:
  "set (printed st) \<subseteq> set (printed (foldl (index_table slug mig) st ts))"
proof (induction ts arbitrary: st)
  case Nil
  then show ?case by simp
next
  case (Cons t ts)
  have "set (printed st) \<subseteq> set (printed (index_table slug mig st t))"
    by (simp add: printed_index_table)
  also have "\<dots> \<subseteq> set (printed (foldl (index_table slug mig) (index_table slug mig st t) ts))"
    by (rule Cons.IH)
  finally show ?case by simp
qed

lemma warning_foldl_index_table:
  assumes "t \<in> set ts" and "start_sha_of mig t \<noteq> end_sha_of mig t"
    and "transform_of st t (start_sha_of mig t) \<noteq> None"
  shows "multiple_transforms_warning t (start_sha_of mig t)
           \<in> set (printed (foldl (index_table slug mig) st ts))"
  using assms
proof (induction ts arbitrary: st)
  case Nil
  then show ?case by simp
next
  case (Cons t' ts)
  show ?case
  proof (cases "t = t'")
    case True
    with Cons.prems have "multiple_transforms_warning t (start_sha_of mig t)
        \<in> set (printed (index_table slug mig st t'))"
      by (simp add: printed_index_table)
    with printed_foldl_index_table_mono [of "index_table slug mig st t'" slug mig ts]
    show ?thesis by auto
  next
    case False
    with Cons.prems have "t \<in> set ts" by simp
    moreover from Cons.prems False
    have "transform_of (index_table slug mig st t') t (start_sha_of mig t) \<noteq> None"
      by (simp add: transform_of_index_table)
    ultimately show ?thesis using Cons.IH Cons.prems(2) by simp
  qed
qed

lemma transform_of_simple_starts_update [simp]:
  "transform_of (st\<lparr>simple_starts := x\<rparr>) = transform_of st"
  by (simp add: transform_of_def fun_eq_iff)

lemma transform_of_index_migration:
  "transform_of (index_migration slug mig st) t h =
     (if t \<in> changed_tables mig \<and> h = start_sha_of mig t then Some slug else transform_of st t h)"
  by (auto simp add: index_migration_def transform_of_foldl_index_table changed_tables_def)

text \<open>
  C6, as stated: when two migrations change the same table from the same start hash,
  resolution goes on with the mapping registered first. In the worked history the
  second and the third migration both change \<^verbatim>\<open>a\<close> from the same hash; once the third
  is recorded the index names the third, not the second.
\<close>

theorem first_registered_transform_is_replaced:
  "transform_of state_name ''a'' sha_a1 = Some slug_name
   \<and> ''a'' \<in> changed_tables mig_bigint \<and> start_sha_of mig_bigint ''a'' = sha_a1
   \<and> state_branch = add_migration slug_bigint ''widen id'' ''ALTER TABLE a ALTER COLUMN id TYPE bigint;''
       [(''a'', summary_a1)] [(''a'', summary_a3)] state_name
   \<and> transform_of state_branch ''a'' sha_a1 = Some slug_bigint
   \<and> slug_bigint \<noteq> slug_name"
proof -
  have "transform_of state_name ''a'' sha_a1 = Some slug_name"
    by (simp add: state_name_value transform_of_def dict_get_def example_defs)
  moreover have "''a'' \<in> changed_tables mig_bigint \<and> start_sha_of mig_bigint ''a'' = sha_a1"
    by (simp add: validity_eval example_defs)
  moreover have "transform_of state_branch ''a'' sha_a1 = Some slug_bigint"
    by (simp add: state_branch_value transform_of_def dict_get_def example_defs)
  moreover have "slug_bigint \<noteq> slug_name"
    by (simp add: example_defs)
  ultimately show ?thesis
    by (simp add: state_branch_def)
qed

text \<open>
  C6, amended: when a migration changes a table from a start hash for which the index
  already names a migration, \<^verbatim>\<open>index_migration\<close> prints the warning and the index names
  the migration registered last. \<^verbatim>\<open>index_migration\<close> has no failing branch: it returns a
  state for every input.
\<close>

theorem conflicting_transform_last_wins:
  assumes "table \<in> changed_tables mig"
    and "transform_of st table (start_sha_of mig table) = Some first_slug"
  shows "transform_of (index_migration slug mig st) table (start_sha_of mig table) = Some slug
       \<and> multiple_transforms_warning table (start_sha_of mig table)
            \<in> set (printed (index_migration slug mig st))"
proof
  from assms(1) show "transform_of (index_migration slug mig st) table (start_sha_of mig table) = Some slug"
    by (simp add: transform_of_index_migration)
next
  from assms have "table \<in> set (key_union (start_shas mig) (end_shas mig))"
    and "start_sha_of mig table \<noteq> end_sha_of mig table"
    and "transform_of (st\<lparr>simple_starts := AList.update (snap_sha (start_shas mig)) slug (simple_starts st)\<rparr>)
           table (start_sha_of mig table) \<noteq> None"
    by (simp_all add: changed_tables_def)
  then show "multiple_transforms_warning table (start_sha_of mig table)
            \<in> set (printed (index_migration slug mig st))"
    unfolding index_migration_def by (rule warning_foldl_index_table)
qed

theorem conflicting_transform_last_wins_witness:
  "''a'' \<in> changed_tables mig_bigint
   \<and> transform_of state_name ''a'' (start_sha_of mig_bigint ''a'') = Some slug_name
   \<and> transform_of (index_migration slug_bigint mig_bigint state_name) ''a''
        (start_sha_of mig_bigint ''a'') = Some slug_bigint
   \<and> multiple_transforms_warning ''a'' (start_sha_of mig_bigint ''a'')
        \<in> set (printed (index_migration slug_bigint mig_bigint state_name))"
proof -
  have c: "''a'' \<in> changed_tables mig_bigint"
    by (simp add: validity_eval example_defs)
  have t: "transform_of state_name ''a'' (start_sha_of mig_bigint ''a'') = Some slug_name"
    by (simp add: state_name_value transform_of_def validity_eval example_defs)
  from c t conflicting_transform_last_wins [OF c t, of slug_bigint] show ?thesis by blast
qed

section \<open>Simple resolution\<close>

lemma load_tables_simple_starts:
  "load_tables files st ts = Inr st' \<Longrightarrow> simple_starts st' = simple_starts st"
  by (induction ts arbitrary: st) (auto split: option.splits)

lemma load_tables_table_transforms:
  "load_tables files st ts = Inr st' \<Longrightarrow> table_transforms st' = table_transforms st"
  by (induction ts arbitrary: st) (auto split: option.splits)

lemma simple_starts_index_all:
  "map_of (simple_starts (index_all items st)) h =
     (case map_of (rev (map (\<lambda>(slug, mig). (snap_sha (start_shas mig), slug)) items)) h of
        None \<Rightarrow> map_of (simple_starts st) h
      | Some s \<Rightarrow> Some s)"
proof (induction items arbitrary: st)
  case Nil
  then show ?case by (simp add: index_all_def)
next
  case (Cons item items)
  obtain slug mig where i: "item = (slug, mig)" by (cases item)
  have "index_all (item # items) st = index_all items (index_migration slug mig st)"
    by (simp add: index_all_def i)
  then show ?case
    by (simp add: Cons.IH i update_conv' map_add_def split: option.splits)
qed

lemma simple_index_loaded:
  assumes d: "distinct (keys sq)" and l: "load_all (Mapping sq) files = Inr st"
  shows "(\<forall>h slug. map_of (simple_starts st) h = Some slug \<longrightarrow>
            (\<exists>mig. map_of (seq st) slug = Some mig \<and> snap_sha (start_shas mig) = h))
       \<and> (\<forall>slug mig. map_of (seq st) slug = Some mig \<longrightarrow>
            map_of (simple_starts st) (snap_sha (start_shas mig)) \<noteq> None)"
proof -
  let ?g = "\<lambda>(slug, mig). (snap_sha (start_shas mig), slug)"
  let ?st0 = "\<lparr>table_transforms = [], simple_starts = [], tables = [], seen = {}, seq = sq,
               printed = []\<rparr>"
  from l have sq: "seq st = sq" by (rule load_all_seq)
  from l have "simple_starts st = simple_starts (index_all sq ?st0)"
    by (auto simp add: load_all_def Let_def dest: load_tables_simple_starts)
  then have m: "\<And>h. map_of (simple_starts st) h = map_of (rev (map ?g sq)) h"
    by (simp add: simple_starts_index_all split: option.splits)
  show ?thesis
  proof (intro conjI allI impI)
    fix h slug assume "map_of (simple_starts st) h = Some slug"
    then have "(h, slug) \<in> set (map ?g sq)"
      by (auto simp add: m dest: map_of_SomeD)
    then obtain mig where "(slug, mig) \<in> set sq" and "snap_sha (start_shas mig) = h"
      by auto
    with d show "\<exists>mig. map_of (seq st) slug = Some mig \<and> snap_sha (start_shas mig) = h"
      by (auto simp add: sq keys_def)
  next
    fix slug mig assume "map_of (seq st) slug = Some mig"
    then have "(slug, mig) \<in> set sq" by (auto simp add: sq dest: map_of_SomeD)
    then have "snap_sha (start_shas mig) \<in> fst ` set (rev (map ?g sq))"
      by force
    then show "map_of (simple_starts st) (snap_sha (start_shas mig)) \<noteq> None"
      by (simp add: m map_of_eq_None_iff)
  qed
qed

lemma add_migration_simple_starts:
  "simple_starts (add_migration slug cmt sql_text start_snap end_snap st) =
     AList.update (snap_sha (snap_to_shas start_snap)) slug (simple_starts st)"
  by (simp add: add_migration_def Let_def)

lemma reachable_unique_simple_index:
  "reachable_unique st \<Longrightarrow>
     (\<forall>h slug. map_of (simple_starts st) h = Some slug \<longrightarrow>
            (\<exists>mig. map_of (seq st) slug = Some mig \<and> snap_sha (start_shas mig) = h))
     \<and> (\<forall>slug mig. map_of (seq st) slug = Some mig \<longrightarrow>
            map_of (simple_starts st) (snap_sha (start_shas mig)) \<noteq> None)"
proof (induction rule: reachable_unique.induct)
  case (from_zero_u sequence_file_exists force st)
  then show ?case by (auto simp add: init_from_zero_def split: if_splits)
next
  case (loaded_u sq table_files st)
  then show ?case by (rule simple_index_loaded)
next
  case (added_u st slug cmt sql_text start_snap end_snap)
  let ?mig = "\<lparr>comment = cmt, start_shas = snap_to_shas start_snap,
        end_shas = snap_to_shas end_snap, sql_sha = string_sha sql_text\<rparr>"
  let ?st' = "add_migration slug cmt sql_text start_snap end_snap st"
  have sq: "map_of (seq ?st') = (map_of (seq st))(slug \<mapsto> ?mig)"
    by (simp add: add_migration_seq update_conv')
  have ss: "map_of (simple_starts ?st') =
      (map_of (simple_starts st))(snap_sha (snap_to_shas start_snap) \<mapsto> slug)"
    by (simp add: add_migration_simple_starts update_conv')
  from added_u.IH have ih1: "\<And>h s. map_of (simple_starts st) h = Some s \<Longrightarrow>
      \<exists>mig. map_of (seq st) s = Some mig \<and> snap_sha (start_shas mig) = h"
    and ih2: "\<And>s mig. map_of (seq st) s = Some mig \<Longrightarrow>
      map_of (simple_starts st) (snap_sha (start_shas mig)) \<noteq> None"
    by blast+
  show ?case
  proof (intro conjI allI impI)
    fix h s assume a: "map_of (simple_starts ?st') h = Some s"
    show "\<exists>mig. map_of (seq ?st') s = Some mig \<and> snap_sha (start_shas mig) = h"
    proof (cases "h = snap_sha (snap_to_shas start_snap)")
      case True
      with a have "s = slug" by (simp add: ss)
      with True show ?thesis by (simp add: sq)
    next
      case False
      with a have "map_of (simple_starts st) h = Some s" by (simp add: ss)
      from ih1 [OF this] obtain mig where m: "map_of (seq st) s = Some mig"
        and e: "snap_sha (start_shas mig) = h" by blast
      from m added_u.hyps(2) have "s \<noteq> slug" by auto
      with m e show ?thesis by (simp add: sq)
    qed
  next
    fix s mig assume a: "map_of (seq ?st') s = Some mig"
    show "map_of (simple_starts ?st') (snap_sha (start_shas mig)) \<noteq> None"
    proof (cases "s = slug")
      case True
      with a have "mig = ?mig" by (simp add: sq)
      then show ?thesis by (simp add: ss)
    next
      case False
      with a have "map_of (seq st) s = Some mig" by (simp add: sq)
      from ih2 [OF this] show ?thesis by (simp add: ss)
    qed
  qed
qed

lemma last_match_snoc:
  assumes that: "\<And>y. P y \<Longrightarrow> Q y"
  shows "(\<exists>before x' after. xs @ [x] = before @ x' # after \<and> P x' \<and> (\<forall>y \<in> set after. \<not> Q y)) =
   (if Q x then P x else
      (\<exists>before x' after. xs = before @ x' # after \<and> P x' \<and> (\<forall>y \<in> set after. \<not> Q y)))"
proof (cases "Q x")
  case True
  show ?thesis
  proof
    assume "\<exists>before x' after. xs @ [x] = before @ x' # after \<and> P x' \<and> (\<forall>y \<in> set after. \<not> Q y)"
    then obtain before x' after where d: "xs @ [x] = before @ x' # after" and p: "P x'"
      and n: "\<forall>y \<in> set after. \<not> Q y" by blast
    have "after = []"
    proof (rule ccontr)
      assume "after \<noteq> []"
      then have "last (before @ x' # after) = last after" by simp
      with d have "x = last after" by (metis last_snoc)
      with \<open>after \<noteq> []\<close> have "x \<in> set after" by simp
      with n True show False by blast
    qed
    with d have "x' = x" by simp
    with p True show "if Q x then P x else
      (\<exists>before x' after. xs = before @ x' # after \<and> P x' \<and> (\<forall>y \<in> set after. \<not> Q y))" by simp
  next
    assume "if Q x then P x else
      (\<exists>before x' after. xs = before @ x' # after \<and> P x' \<and> (\<forall>y \<in> set after. \<not> Q y))"
    with True have "P x" by simp
    then have "xs @ [x] = xs @ x # [] \<and> P x \<and> (\<forall>y \<in> set []. \<not> Q y)" by simp
    then show "\<exists>before x' after. xs @ [x] = before @ x' # after \<and> P x' \<and> (\<forall>y \<in> set after. \<not> Q y)"
      by blast
  qed
next
  case False
  show ?thesis
  proof
    assume "\<exists>before x' after. xs @ [x] = before @ x' # after \<and> P x' \<and> (\<forall>y \<in> set after. \<not> Q y)"
    then obtain before x' after where d: "xs @ [x] = before @ x' # after" and p: "P x'"
      and n: "\<forall>y \<in> set after. \<not> Q y" by blast
    have "after \<noteq> []"
    proof
      assume "after = []"
      with d have "x' = x" by simp
      with p that False show False by blast
    qed
    then obtain after' where a: "after = after' @ [last after]"
      by (metis append_butlast_last_id)
    with d have "xs @ [x] = (before @ x' # after') @ [last after]" by simp
    then have "xs = before @ x' # after'" by (simp only: append1_eq_conv)
    moreover from n a have "\<forall>y \<in> set after'. \<not> Q y"
      by (metis Un_iff set_append)
    ultimately have "\<exists>before x' after. xs = before @ x' # after \<and> P x' \<and> (\<forall>y \<in> set after. \<not> Q y)"
      using p by blast
    with False show "if Q x then P x else
      (\<exists>before x' after. xs = before @ x' # after \<and> P x' \<and> (\<forall>y \<in> set after. \<not> Q y))" by simp
  next
    assume "if Q x then P x else
      (\<exists>before x' after. xs = before @ x' # after \<and> P x' \<and> (\<forall>y \<in> set after. \<not> Q y))"
    with False obtain before x' after where "xs = before @ x' # after" and "P x'"
      and "\<forall>y \<in> set after. \<not> Q y" by auto
    with False have "xs @ [x] = before @ x' # (after @ [x]) \<and> P x' \<and> (\<forall>y \<in> set (after @ [x]). \<not> Q y)"
      by simp
    then show "\<exists>before x' after. xs @ [x] = before @ x' # after \<and> P x' \<and> (\<forall>y \<in> set after. \<not> Q y)"
      by blast
  qed
qed

lemma map_of_rev_last_match:
  "(map_of (rev (map g xs)) h = Some s) =
     (\<exists>before x after. xs = before @ x # after \<and> g x = (h, s) \<and> (\<forall>y \<in> set after. fst (g y) \<noteq> h))"
proof (induction xs rule: rev_induct)
  case Nil
  then show ?case by simp
next
  case (snoc x xs)
  have "(map_of (rev (map g (xs @ [x]))) h = Some s) =
        (if fst (g x) = h then g x = (h, s) else map_of (rev (map g xs)) h = Some s)"
    by (cases "g x") auto
  also have "\<dots> = (if fst (g x) = h then g x = (h, s) else
      (\<exists>before x' after. xs = before @ x' # after \<and> g x' = (h, s) \<and> (\<forall>y \<in> set after. fst (g y) \<noteq> h)))"
    by (simp add: snoc.IH)
  also have "\<dots> = (\<exists>before x' after. xs @ [x] = before @ x' # after \<and> g x' = (h, s) \<and>
      (\<forall>y \<in> set after. \<not> fst (g y) = h))"
    by (rule last_match_snoc [where P = "\<lambda>y. g y = (h, s)" and Q = "\<lambda>y. fst (g y) = h", symmetric])
       simp
  finally show ?case by simp
qed

lemma update_absent_append: "map_of d k = None \<Longrightarrow> AList.update k v d = d @ [(k, v)]"
  by (induction d) (auto split: if_splits)

lemma reachable_unique_simple_starts:
  "reachable_unique st \<Longrightarrow>
     map_of (simple_starts st) h =
       map_of (rev (map (\<lambda>(slug, mig). (snap_sha (start_shas mig), slug)) (seq st))) h"
proof (induction arbitrary: h rule: reachable_unique.induct)
  case (from_zero_u sequence_file_exists force st)
  then show ?case by (auto simp add: init_from_zero_def split: if_splits)
next
  case (loaded_u sq table_files st)
  let ?st0 = "\<lparr>table_transforms = [], simple_starts = [], tables = [], seen = {}, seq = sq,
               printed = []\<rparr>"
  from loaded_u(2) have sq: "seq st = sq" by (rule load_all_seq)
  from loaded_u(2) have "simple_starts st = simple_starts (index_all sq ?st0)"
    by (auto simp add: load_all_def Let_def dest: load_tables_simple_starts)
  then show ?case
    by (simp add: simple_starts_index_all sq split: option.splits)
next
  case (added_u st slug cmt sql_text start_snap end_snap)
  let ?mig = "\<lparr>comment = cmt, start_shas = snap_to_shas start_snap,
        end_shas = snap_to_shas end_snap, sql_sha = string_sha sql_text\<rparr>"
  have "seq (add_migration slug cmt sql_text start_snap end_snap st) = seq st @ [(slug, ?mig)]"
    by (simp add: add_migration_seq update_absent_append [OF added_u.hyps(2)])
  then show ?case
    by (simp add: add_migration_simple_starts update_conv' added_u.IH)
qed

lemma reachable_unique_examples:
  "reachable_unique zero_state" "reachable_unique state_init" "reachable_unique state_name"
  "reachable_unique state_branch"
proof -
  have "init_from_zero False False = Inr zero_state"
    by (simp add: init_from_zero_def zero_state_def)
  then show z: "reachable_unique zero_state" by (rule from_zero_u)
  have "map_of (seq zero_state) slug_init = None" by (simp add: zero_state_def)
  with z show i: "reachable_unique state_init" unfolding state_init_def by (rule added_u)
  have "map_of (seq state_init) slug_name = None" by (simp add: state_init_value example_defs)
  with i show n: "reachable_unique state_name" unfolding state_name_def by (rule added_u)
  have "map_of (seq state_name) slug_bigint = None" by (simp add: state_name_value example_defs)
  with n show "reachable_unique state_branch" unfolding state_branch_def by (rule added_u)
qed

text \<open>
  C1, as stated: \<^verbatim>\<open>find_next_migration_simple\<close> returns a slug exactly when the joint
  hash of the snapshot is the joint hash of the start hashes recorded for that slug. In
  the worked history the second and the third migration start from the same state; on
  that state the third is returned, and the second is not although its joint hash
  matches.
\<close>

theorem simple_resolution_shared_start:
  "reachable_unique state_branch
   \<and> map_of (seq state_branch) slug_name = Some mig_name
   \<and> joint_sha [(''a'', summary_a1)] = snap_sha (start_shas mig_name)
   \<and> find_next_migration_simple [(''a'', summary_a1)] state_branch = Some slug_bigint
   \<and> slug_bigint \<noteq> slug_name"
proof -
  have "map_of (seq state_branch) slug_name = Some mig_name"
    by (simp add: state_branch_value example_defs)
  moreover have "joint_sha [(''a'', summary_a1)] = snap_sha (start_shas mig_name)"
    by (simp add: joint_sha_def snap_to_shas_def example_defs)
  moreover have "find_next_migration_simple [(''a'', summary_a1)] state_branch = Some slug_bigint"
    by (simp add: find_next_migration_simple_def state_branch_value snap_to_shas_def example_defs)
  moreover have "slug_bigint \<noteq> slug_name" by (simp add: example_defs)
  ultimately show ?thesis using reachable_unique_examples(4) by blast
qed

text \<open>
  C1, amended. In a state where every migration was recorded under a slug of its own:
  \<^verbatim>\<open>find_next_migration_simple\<close> returns none exactly when no recorded migration has the
  joint hash of the snapshot as joint hash of its start hashes; a slug it returns is
  recorded with that joint start hash; for a migration that is the only one with its
  joint start hash, it returns the slug exactly when the joint hashes are equal; and in
  general it returns a slug exactly when that slug is the last entry of the sequence, in
  the order in which the migrations were indexed, whose start hashes have the joint hash
  of the snapshot.
\<close>

theorem find_next_migration_simple_matches:
  assumes "reachable_unique st"
  shows "(find_next_migration_simple db_snap st = None \<longleftrightarrow>
            (\<forall>slug mig. map_of (seq st) slug = Some mig \<longrightarrow>
               snap_sha (start_shas mig) \<noteq> joint_sha db_snap))
       \<and> (\<forall>slug. find_next_migration_simple db_snap st = Some slug \<longrightarrow>
            (\<exists>mig. map_of (seq st) slug = Some mig \<and> snap_sha (start_shas mig) = joint_sha db_snap))
       \<and> (\<forall>slug mig.
            map_of (seq st) slug = Some mig \<and>
            (\<forall>slug' mig'. map_of (seq st) slug' = Some mig' \<and>
                 snap_sha (start_shas mig') = snap_sha (start_shas mig) \<longrightarrow> slug' = slug) \<longrightarrow>
            (find_next_migration_simple db_snap st = Some slug \<longleftrightarrow>
               joint_sha db_snap = snap_sha (start_shas mig)))
       \<and> (\<forall>slug. find_next_migration_simple db_snap st = Some slug \<longleftrightarrow>
            (\<exists>before mig after.
               seq st = before @ (slug, mig) # after \<and>
               snap_sha (start_shas mig) = joint_sha db_snap \<and>
               (\<forall>later \<in> set after. snap_sha (start_shas (snd later)) \<noteq> joint_sha db_snap)))"
proof -
  from reachable_unique_simple_index [OF assms]
  have i1: "\<And>h s. map_of (simple_starts st) h = Some s \<Longrightarrow>
      \<exists>mig. map_of (seq st) s = Some mig \<and> snap_sha (start_shas mig) = h"
    and i2: "\<And>s mig. map_of (seq st) s = Some mig \<Longrightarrow>
      map_of (simple_starts st) (snap_sha (start_shas mig)) \<noteq> None"
    by blast+
  have f: "find_next_migration_simple db_snap st = map_of (simple_starts st) (joint_sha db_snap)"
    by (simp add: find_next_migration_simple_def joint_sha_def)
  have a: "find_next_migration_simple db_snap st = None \<longleftrightarrow>
            (\<forall>slug mig. map_of (seq st) slug = Some mig \<longrightarrow>
               snap_sha (start_shas mig) \<noteq> joint_sha db_snap)"
  proof
    assume n: "find_next_migration_simple db_snap st = None"
    show "\<forall>slug mig. map_of (seq st) slug = Some mig \<longrightarrow>
               snap_sha (start_shas mig) \<noteq> joint_sha db_snap"
    proof (intro allI impI notI)
      fix slug mig assume "map_of (seq st) slug = Some mig"
        and "snap_sha (start_shas mig) = joint_sha db_snap"
      with i2 [of slug mig] n show False by (simp add: f)
    qed
  next
    assume r: "\<forall>slug mig. map_of (seq st) slug = Some mig \<longrightarrow>
               snap_sha (start_shas mig) \<noteq> joint_sha db_snap"
    show "find_next_migration_simple db_snap st = None"
    proof (rule ccontr)
      assume "find_next_migration_simple db_snap st \<noteq> None"
      then obtain s where "map_of (simple_starts st) (joint_sha db_snap) = Some s"
        by (auto simp add: f)
      from i1 [OF this] r show False by blast
    qed
  qed
  have b: "\<forall>slug. find_next_migration_simple db_snap st = Some slug \<longrightarrow>
            (\<exists>mig. map_of (seq st) slug = Some mig \<and> snap_sha (start_shas mig) = joint_sha db_snap)"
    using i1 by (simp add: f)
  have c: "\<forall>slug mig.
            map_of (seq st) slug = Some mig \<and>
            (\<forall>slug' mig'. map_of (seq st) slug' = Some mig' \<and>
                 snap_sha (start_shas mig') = snap_sha (start_shas mig) \<longrightarrow> slug' = slug) \<longrightarrow>
            (find_next_migration_simple db_snap st = Some slug \<longleftrightarrow>
               joint_sha db_snap = snap_sha (start_shas mig))"
  proof (intro allI impI)
    fix slug mig
    assume h: "map_of (seq st) slug = Some mig \<and>
            (\<forall>slug' mig'. map_of (seq st) slug' = Some mig' \<and>
                 snap_sha (start_shas mig') = snap_sha (start_shas mig) \<longrightarrow> slug' = slug)"
    show "find_next_migration_simple db_snap st = Some slug \<longleftrightarrow>
               joint_sha db_snap = snap_sha (start_shas mig)"
    proof
      assume "find_next_migration_simple db_snap st = Some slug"
      with b h show "joint_sha db_snap = snap_sha (start_shas mig)" by auto
    next
      assume e: "joint_sha db_snap = snap_sha (start_shas mig)"
      with i2 [of slug mig] h obtain s where s: "find_next_migration_simple db_snap st = Some s"
        by (auto simp add: f)
      with b obtain mig' where "map_of (seq st) s = Some mig'"
        and "snap_sha (start_shas mig') = joint_sha db_snap" by blast
      with h e have "s = slug" by auto
      with s show "find_next_migration_simple db_snap st = Some slug" by simp
    qed
  qed
  have d: "\<forall>slug. find_next_migration_simple db_snap st = Some slug \<longleftrightarrow>
            (\<exists>before mig after.
               seq st = before @ (slug, mig) # after \<and>
               snap_sha (start_shas mig) = joint_sha db_snap \<and>
               (\<forall>later \<in> set after. snap_sha (start_shas (snd later)) \<noteq> joint_sha db_snap))"
  proof
    fix slug
    let ?g = "\<lambda>(slug, mig). (snap_sha (start_shas mig), slug)"
    have "find_next_migration_simple db_snap st = Some slug \<longleftrightarrow>
          map_of (rev (map ?g (seq st))) (joint_sha db_snap) = Some slug"
      by (simp add: f reachable_unique_simple_starts [OF assms])
    also have "\<dots> \<longleftrightarrow>
          (\<exists>before x after. seq st = before @ x # after \<and> ?g x = (joint_sha db_snap, slug) \<and>
             (\<forall>y \<in> set after. fst (?g y) \<noteq> joint_sha db_snap))"
      by (rule map_of_rev_last_match)
    also have "\<dots> \<longleftrightarrow>
          (\<exists>before mig after.
               seq st = before @ (slug, mig) # after \<and>
               snap_sha (start_shas mig) = joint_sha db_snap \<and>
               (\<forall>later \<in> set after. snap_sha (start_shas (snd later)) \<noteq> joint_sha db_snap))"
      by (simp add: case_prod_unfold)
    finally show "find_next_migration_simple db_snap st = Some slug \<longleftrightarrow>
          (\<exists>before mig after.
               seq st = before @ (slug, mig) # after \<and>
               snap_sha (start_shas mig) = joint_sha db_snap \<and>
               (\<forall>later \<in> set after. snap_sha (start_shas (snd later)) \<noteq> joint_sha db_snap))" .
  qed
  from a b c d show ?thesis by (intro conjI)
qed

theorem find_next_migration_simple_matches_witness:
  "reachable_unique state_name
   \<and> find_next_migration_simple [(''a'', summary_a1)] state_name = Some slug_name
   \<and> (\<exists>mig. map_of (seq state_name) slug_name = Some mig
          \<and> snap_sha (start_shas mig) = joint_sha [(''a'', summary_a1)])
   \<and> find_next_migration_simple [(''a'', \<lparr>sql = [], sha = EMPTYSHA\<rparr>)] state_name = None
   \<and> map_of (seq state_name) slug_name = Some mig_name
   \<and> snap_sha (start_shas mig_name) \<noteq> joint_sha [(''a'', \<lparr>sql = [], sha = EMPTYSHA\<rparr>)]
   \<and> (find_next_migration_simple [(''a'', summary_a1)] state_name = Some slug_name \<longleftrightarrow>
        joint_sha [(''a'', summary_a1)] = snap_sha (start_shas mig_name))
   \<and> reachable_unique state_branch
   \<and> find_next_migration_simple [(''a'', summary_a1)] state_branch = Some slug_bigint
   \<and> (\<exists>before mig after.
         seq state_branch = before @ (slug_bigint, mig) # after \<and>
         snap_sha (start_shas mig) = joint_sha [(''a'', summary_a1)] \<and>
         (\<forall>later \<in> set after. snap_sha (start_shas (snd later)) \<noteq> joint_sha [(''a'', summary_a1)]))"
proof -
  note r = reachable_unique_examples(3)
  have f: "find_next_migration_simple [(''a'', summary_a1)] state_name = Some slug_name"
    by (simp add: find_next_migration_simple_def state_name_value snap_to_shas_def example_defs)
  have n: "find_next_migration_simple [(''a'', \<lparr>sql = [], sha = EMPTYSHA\<rparr>)] state_name = None"
    by (simp add: find_next_migration_simple_def state_name_value snap_to_shas_def example_defs)
  have m: "map_of (seq state_name) slug_name = Some mig_name"
    by (simp add: state_name_value example_defs)
  note t1 = find_next_migration_simple_matches [OF r, of "[(''a'', summary_a1)]"]
  note t2 = find_next_migration_simple_matches [OF r, of "[(''a'', \<lparr>sql = [], sha = EMPTYSHA\<rparr>)]"]
  note i1 = t1 [THEN conjunct2, THEN conjunct1]
  note i2 = t2 [THEN conjunct1]
  note i3 = t1 [THEN conjunct2, THEN conjunct2, THEN conjunct1]
  from i1 f have a: "\<exists>mig. map_of (seq state_name) slug_name = Some mig
          \<and> snap_sha (start_shas mig) = joint_sha [(''a'', summary_a1)]"
    by blast
  from i2 n m have b: "snap_sha (start_shas mig_name) \<noteq> joint_sha [(''a'', \<lparr>sql = [], sha = EMPTYSHA\<rparr>)]"
    by blast
  have u: "\<forall>slug' mig'. map_of (seq state_name) slug' = Some mig' \<and>
             snap_sha (start_shas mig') = snap_sha (start_shas mig_name) \<longrightarrow> slug' = slug_name"
    by (auto simp add: state_name_value example_defs snap_sha_nil split: if_splits)
  from i3 m u have c: "find_next_migration_simple [(''a'', summary_a1)] state_name = Some slug_name \<longleftrightarrow>
        joint_sha [(''a'', summary_a1)] = snap_sha (start_shas mig_name)"
    by blast
  note rb = reachable_unique_examples(4)
  have fb: "find_next_migration_simple [(''a'', summary_a1)] state_branch = Some slug_bigint"
    by (simp add: find_next_migration_simple_def state_branch_value snap_to_shas_def example_defs)
  note i4 = find_next_migration_simple_matches [OF rb, of "[(''a'', summary_a1)]",
      THEN conjunct2, THEN conjunct2, THEN conjunct2, THEN spec, of slug_bigint]
  from i4 fb have l: "\<exists>before mig after.
         seq state_branch = before @ (slug_bigint, mig) # after \<and>
         snap_sha (start_shas mig) = joint_sha [(''a'', summary_a1)] \<and>
         (\<forall>later \<in> set after. snap_sha (start_shas (snd later)) \<noteq> joint_sha [(''a'', summary_a1)])"
    by (rule iffD1)
  from r f a n m b c rb fb l show ?thesis by (intro conjI)
qed

section \<open>Advanced resolution\<close>

lemma next_migs_resolve_table:
  "dict_get (next_migs (resolve_table st sh r t)) m [] =
     dict_get (next_migs r) m [] @
       (if transform_of st t (dict_get sh t EMPTYSHA) = Some m then [t] else [])"
  by (auto simp add: resolve_table_def Let_def dict_get_update split: option.splits)

lemma next_migs_keys_resolve_table:
  "(map_of (next_migs (resolve_table st sh r t)) m = None) =
     (map_of (next_migs r) m = None \<and> transform_of st t (dict_get sh t EMPTYSHA) \<noteq> Some m)"
  by (auto simp add: resolve_table_def Let_def update_conv' split: option.splits)

lemma error_resolve_table:
  "error (resolve_table st sh r t) =
     error r @ (if transform_of st t (dict_get sh t EMPTYSHA) = None \<and> dict_get sh t EMPTYSHA \<notin> seen st
                then [t] else [])"
  by (auto simp add: resolve_table_def Let_def split: option.splits)

lemma out_resolve_table:
  "out (resolve_table st sh r t) =
     out r @ (if transform_of st t (dict_get sh t EMPTYSHA) = None \<and> dict_get sh t EMPTYSHA \<notin> seen st
              then [unknown_line st t (dict_get sh t EMPTYSHA)] else [])"
  by (auto simp add: resolve_table_def Let_def split: option.splits)

lemma next_migs_foldl_resolve_table:
  "dict_get (next_migs (foldl (resolve_table st sh) r ts)) m [] =
     dict_get (next_migs r) m [] @
       filter (\<lambda>t. transform_of st t (dict_get sh t EMPTYSHA) = Some m) ts"
  by (induction ts arbitrary: r) (simp_all add: next_migs_resolve_table)

lemma next_migs_keys_foldl_resolve_table:
  "(map_of (next_migs (foldl (resolve_table st sh) r ts)) m = None) =
     (map_of (next_migs r) m = None \<and>
      (\<forall>t \<in> set ts. transform_of st t (dict_get sh t EMPTYSHA) \<noteq> Some m))"
proof (induction ts arbitrary: r)
  case Nil
  then show ?case by simp
next
  case (Cons t ts)
  show ?case
    by (auto simp add: Cons.IH next_migs_keys_resolve_table)
qed

lemma error_foldl_resolve_table:
  "error (foldl (resolve_table st sh) r ts) =
     error r @ filter (\<lambda>t. transform_of st t (dict_get sh t EMPTYSHA) = None \<and>
                            dict_get sh t EMPTYSHA \<notin> seen st) ts"
  by (induction ts arbitrary: r) (simp_all add: error_resolve_table)

lemma out_foldl_resolve_table:
  "out (foldl (resolve_table st sh) r ts) =
     out r @ map (\<lambda>t. unknown_line st t (dict_get sh t EMPTYSHA))
               (filter (\<lambda>t. transform_of st t (dict_get sh t EMPTYSHA) = None \<and>
                             dict_get sh t EMPTYSHA \<notin> seen st) ts)"
  by (induction ts arbitrary: r) (simp_all add: out_resolve_table)

lemma report_migs_total:
  "(\<forall>m \<in> set (keys nm). map_of (seq st) m \<noteq> None) \<Longrightarrow> \<exists>ls. report_migs st db_snap nm = Inr ls"
proof (induction nm)
  case Nil
  then show ?case by simp
next
  case (Cons item nm)
  obtain m ts where i: "item = (m, ts)" by (cases item)
  from Cons.prems obtain mig where "map_of (seq st) m = Some mig"
    by (auto simp add: i keys_def)
  then have "\<exists>bad. check_validity m db_snap False st = Inr bad"
    by (simp add: check_validity_def Let_def)
  then obtain bad where "check_validity m db_snap False st = Inr bad" ..
  moreover from Cons have "\<exists>ls. report_migs st db_snap nm = Inr ls"
    by (simp add: keys_def)
  ultimately show ?case by (auto simp add: i)
qed

lemma transform_of_cong_tt:
  "table_transforms st' = table_transforms st \<Longrightarrow> transform_of st' = transform_of st"
  by (simp add: transform_of_def fun_eq_iff)

lemma transform_of_index_all:
  "transform_of (index_all items st) t h = Some m \<Longrightarrow>
     m \<in> set (keys items) \<or> transform_of st t h = Some m"
proof (induction items arbitrary: st)
  case Nil
  then show ?case by (simp add: index_all_def)
next
  case (Cons item items)
  obtain slug mig where i: "item = (slug, mig)" by (cases item)
  have "index_all (item # items) st = index_all items (index_migration slug mig st)"
    by (simp add: index_all_def i)
  with Cons.prems Cons.IH [of "index_migration slug mig st"]
  show ?case
    by (auto simp add: i keys_def transform_of_index_migration split: if_splits)
qed

lemma reachable_transforms_recorded:
  "reachable st \<Longrightarrow> transform_of st t h = Some m \<Longrightarrow> map_of (seq st) m \<noteq> None"
proof (induction arbitrary: t h m rule: reachable.induct)
  case (from_zero sequence_file_exists force st)
  then show ?case
    by (auto simp add: init_from_zero_def transform_of_def dict_get_def split: if_splits)
next
  case (loaded sequence_file table_files st)
  from loaded(1) obtain sq where f: "sequence_file = Mapping sq"
    by (cases sequence_file) (auto simp add: load_all_def)
  let ?st0 = "\<lparr>table_transforms = [], simple_starts = [], tables = [], seen = {}, seq = sq,
               printed = []\<rparr>"
  from loaded(1) f have sq: "seq st = sq" by (simp add: load_all_seq)
  from loaded(1) f have "table_transforms st = table_transforms (index_all sq ?st0)"
    by (auto simp add: load_all_def Let_def dest: load_tables_table_transforms)
  then have "transform_of st = transform_of (index_all sq ?st0)"
    by (rule transform_of_cong_tt)
  with loaded(2) have "transform_of (index_all sq ?st0) t h = Some m" by simp
  from transform_of_index_all [OF this]
  have "m \<in> set (keys sq) \<or> transform_of ?st0 t h = Some m" .
  moreover have "transform_of ?st0 t h = None"
    by (simp add: transform_of_def dict_get_def)
  ultimately have "m \<in> set (keys sq)" by simp
  then show ?case by (simp add: sq keys_def map_of_eq_None_iff)
next
  case (added st slug cmt sql_text start_snap end_snap)
  let ?mig = "\<lparr>comment = cmt, start_shas = snap_to_shas start_snap,
        end_shas = snap_to_shas end_snap, sql_sha = string_sha sql_text\<rparr>"
  let ?st1 = "st\<lparr>seq := AList.update slug ?mig (seq st)\<rparr>"
  have "transform_of (add_migration slug cmt sql_text start_snap end_snap st) =
        transform_of (index_migration slug ?mig ?st1)"
    by (rule transform_of_cong_tt) (simp add: add_migration_def Let_def)
  with added.prems have "transform_of (index_migration slug ?mig ?st1) t h = Some m" by simp
  then have "m = slug \<or> transform_of ?st1 t h = Some m"
    by (auto simp add: transform_of_index_migration split: if_splits)
  moreover have "transform_of ?st1 = transform_of st"
    by (rule transform_of_cong_tt) simp
  ultimately have "m = slug \<or> map_of (seq st) m \<noteq> None"
    using added.IH by auto
  then show ?case
    by (auto simp add: add_migration_seq update_conv')
qed


lemma map_of_all_None: "(\<forall>k. map_of xs k = None) = (xs = [])"
  by (cases xs) (auto simp add: fun_eq_iff)

lemma reachable_unique_reachable: "reachable_unique st \<Longrightarrow> reachable st"
  by (induction rule: reachable_unique.induct) (auto intro: reachable.intros)

lemmas advanced_eval = find_next_migration_advanced_def resolve_tables_def resolve_table_def
  transform_of_def snap_to_shas_def key_union_def keys_def dict_get_def Let_def
  check_validity_def violation_def

text \<open>
  C3, as stated: advanced resolution returns the unknown-state errors together with the
  migrations it can still resolve, and an absent result means that the database is up to
  date, with nothing pending and no error. After the first migration of the worked
  history, on a database that has also a table \<^verbatim>\<open>b\<close> which no migration knows, the
  result is absent although \<^verbatim>\<open>b\<close> is in the list of errors and \<^verbatim>\<open>is_up_to_date\<close>
  answers no; the error is printed, and the value returned has no place for it.
\<close>

theorem unknown_table_gives_absent_result:
  "find_next_migration_advanced [(''a'', summary_a1), (''b'', summary_b1)] state_init =
     Inr ([unknown_line state_init ''b'' sha_b1], None)
   \<and> unknown_line state_init ''b'' sha_b1 = ''ERROR unknown table: '' @ ESC @ ''[0;31mb'' @ ESC @ ''[0m''
   \<and> error (resolve_tables [(''a'', summary_a1), (''b'', summary_b1)] state_init) = [''b'']
   \<and> up_to_date (resolve_tables [(''a'', summary_a1), (''b'', summary_b1)] state_init) = [''a'']
   \<and> is_up_to_date [(''a'', summary_a1), (''b'', summary_b1)] state_init = Inr False"
proof -
  have "find_next_migration_advanced [(''a'', summary_a1), (''b'', summary_b1)] state_init =
     Inr ([unknown_line state_init ''b'' sha_b1], None)"
    by (simp add: advanced_eval state_init_value example_defs)
  moreover have "unknown_line state_init ''b'' sha_b1 =
      ''ERROR unknown table: '' @ ESC @ ''[0;31mb'' @ ESC @ ''[0m''"
    by (simp add: unknown_line_def state_init_value color_seq_eval)
  moreover have "error (resolve_tables [(''a'', summary_a1), (''b'', summary_b1)] state_init) = [''b'']"
    by (simp add: advanced_eval state_init_value example_defs)
  moreover have "up_to_date (resolve_tables [(''a'', summary_a1), (''b'', summary_b1)] state_init) = [''a'']"
    by (simp add: advanced_eval state_init_value example_defs)
  moreover have "is_up_to_date [(''a'', summary_a1), (''b'', summary_b1)] state_init = Inr False"
    by (simp add: is_up_to_date_def max_key_def state_init_value keys_def snap_to_shas_def
          example_defs snap_sha_a1_b1_value snap_sha_a1_value)
  ultimately show ?thesis by blast
qed

text \<open>
  C3, amended. In every state of the engine and for every snapshot, advanced resolution
  returns without raising; the value returned is absent exactly when no visited table
  points to a migration, whether or not a table is in an unknown state; otherwise it
  maps every slug that a visited table points to, and no other, to the tables pointing
  to it. The tables in an unknown state are those of the local list \<^verbatim>\<open>error\<close>; each has
  its line on standard output and none is part of the value returned.
\<close>

theorem advanced_resolution_result:
  assumes "reachable st"
  shows "\<exists>ls res. find_next_migration_advanced db_snap st = Inr (ls, res)
     \<and> (res = None \<longleftrightarrow>
          (\<forall>t \<in> visited_tables db_snap st. transform_of st t (live_sha db_snap t) = None))
     \<and> (\<forall>nm. res = Some nm \<longrightarrow>
          (\<forall>m. map_of nm m \<noteq> None \<longleftrightarrow>
                (\<exists>t \<in> visited_tables db_snap st. transform_of st t (live_sha db_snap t) = Some m))
          \<and> (\<forall>m. set (dict_get nm m []) =
                {t \<in> visited_tables db_snap st. transform_of st t (live_sha db_snap t) = Some m}))
     \<and> set (error (resolve_tables db_snap st)) =
          {t \<in> visited_tables db_snap st.
             transform_of st t (live_sha db_snap t) = None \<and> live_sha db_snap t \<notin> seen st}
     \<and> (\<forall>t \<in> set (error (resolve_tables db_snap st)).
           unknown_line st t (live_sha db_snap t) \<in> set ls)"
proof -
  let ?sh = "snap_to_shas db_snap"
  let ?ts = "key_union db_snap (tables st)"
  let ?r = "resolve_tables db_snap st"
  let ?p = "\<lambda>t. transform_of st t (live_sha db_snap t)"
  have l: "\<And>t. dict_get ?sh t EMPTYSHA = live_sha db_snap t"
    by (simp add: live_sha_def)
  have v: "visited_tables db_snap st = set ?ts"
    by (simp add: visited_tables_def)
  have k: "\<And>m. (map_of (next_migs ?r) m = None) = (\<forall>t \<in> set ?ts. ?p t \<noteq> Some m)"
    by (simp add: resolve_tables_def next_migs_keys_foldl_resolve_table l)
  have g: "\<And>m. dict_get (next_migs ?r) m [] = filter (\<lambda>t. ?p t = Some m) ?ts"
    by (simp add: resolve_tables_def next_migs_foldl_resolve_table l) (simp add: dict_get_def)
  have e: "error ?r = filter (\<lambda>t. ?p t = None \<and> live_sha db_snap t \<notin> seen st) ?ts"
    by (simp add: resolve_tables_def error_foldl_resolve_table l)
  have o: "out ?r = map (\<lambda>t. unknown_line st t (live_sha db_snap t))
                      (filter (\<lambda>t. ?p t = None \<and> live_sha db_snap t \<notin> seen st) ?ts)"
    by (simp add: resolve_tables_def out_foldl_resolve_table l)
  have "\<forall>m \<in> set (keys (next_migs ?r)). map_of (seq st) m \<noteq> None"
  proof
    fix m assume "m \<in> set (keys (next_migs ?r))"
    then have "map_of (next_migs ?r) m \<noteq> None"
      by (simp add: keys_def map_of_eq_None_iff)
    with k obtain t where "?p t = Some m" by auto
    with assms show "map_of (seq st) m \<noteq> None"
      by (rule reachable_transforms_recorded)
  qed
  then obtain ls where ls: "report_migs st db_snap (next_migs ?r) = Inr ls"
    using report_migs_total by blast
  let ?res = "if length (next_migs ?r) \<noteq> 0 then Some (next_migs ?r) else None"
  have f: "find_next_migration_advanced db_snap st = Inr (out ?r @ ls, ?res)"
    by (simp add: find_next_migration_advanced_def Let_def ls)
  have n: "(?res = None) = (\<forall>t \<in> visited_tables db_snap st. ?p t = None)"
  proof -
    have "(?res = None) = (next_migs ?r = [])" by simp
    also have "\<dots> = (\<forall>m. map_of (next_migs ?r) m = None)" by (simp add: map_of_all_None)
    also have "\<dots> = (\<forall>t \<in> set ?ts. ?p t = None)"
      unfolding k by (metis not_Some_eq)
    finally show ?thesis by (simp add: v)
  qed
  have s: "\<forall>nm. ?res = Some nm \<longrightarrow>
          (\<forall>m. map_of nm m \<noteq> None \<longleftrightarrow> (\<exists>t \<in> visited_tables db_snap st. ?p t = Some m))
          \<and> (\<forall>m. set (dict_get nm m []) = {t \<in> visited_tables db_snap st. ?p t = Some m})"
  proof (intro allI impI)
    fix nm assume "?res = Some nm"
    then have nm: "nm = next_migs ?r" by (simp split: if_splits)
    have k2: "\<And>m. (map_of nm m \<noteq> None) = (\<exists>t \<in> visited_tables db_snap st. ?p t = Some m)"
      unfolding nm v k by simp
    have g2: "\<And>m. set (dict_get nm m []) = {t \<in> visited_tables db_snap st. ?p t = Some m}"
      unfolding nm v g by simp
    from k2 g2
    show "(\<forall>m. map_of nm m \<noteq> None \<longleftrightarrow> (\<exists>t \<in> visited_tables db_snap st. ?p t = Some m))
          \<and> (\<forall>m. set (dict_get nm m []) = {t \<in> visited_tables db_snap st. ?p t = Some m})"
      by simp
  qed
  have es: "set (error ?r) =
          {t \<in> visited_tables db_snap st. ?p t = None \<and> live_sha db_snap t \<notin> seen st}"
    by (auto simp add: e v)
  have os: "\<forall>t \<in> set (error ?r). unknown_line st t (live_sha db_snap t) \<in> set (out ?r @ ls)"
    by (auto simp add: e o)
  show ?thesis
    apply (rule exI [where x = "out ?r @ ls"])
    apply (rule exI [where x = ?res])
    apply (intro conjI)
        apply (rule f)
       apply (rule n)
      apply (rule s)
     apply (rule es)
    apply (rule os)
    done
qed

theorem advanced_resolution_result_witness:
  "reachable state_branch
   \<and> find_next_migration_advanced [(''a'', summary_a1)] state_branch =
       Inr (report_lines slug_bigint [''a''] None, Some [(slug_bigint, [''a''])])
   \<and> (\<exists>t. t \<in> visited_tables [(''a'', summary_a1)] state_branch
          \<and> transform_of state_branch t (live_sha [(''a'', summary_a1)] t) = Some slug_bigint)
   \<and> {t \<in> visited_tables [(''a'', summary_a1)] state_branch.
         transform_of state_branch t (live_sha [(''a'', summary_a1)] t) = Some slug_bigint} = {''a''}"
proof -
  have r: "reachable state_branch"
    by (rule reachable_unique_reachable) (rule reachable_unique_examples)
  have f: "find_next_migration_advanced [(''a'', summary_a1)] state_branch =
       Inr (report_lines slug_bigint [''a''] None, Some [(slug_bigint, [''a''])])"
    by (simp add: advanced_eval state_branch_value example_defs)
  from advanced_resolution_result [OF r, of "[(''a'', summary_a1)]"]
  obtain ls res where
    e: "find_next_migration_advanced [(''a'', summary_a1)] state_branch = Inr (ls, res)"
    and s: "\<forall>nm. res = Some nm \<longrightarrow>
          (\<forall>m. map_of nm m \<noteq> None \<longleftrightarrow>
                (\<exists>t \<in> visited_tables [(''a'', summary_a1)] state_branch.
                   transform_of state_branch t (live_sha [(''a'', summary_a1)] t) = Some m))
          \<and> (\<forall>m. set (dict_get nm m []) =
                {t \<in> visited_tables [(''a'', summary_a1)] state_branch.
                   transform_of state_branch t (live_sha [(''a'', summary_a1)] t) = Some m})"
    by blast
  from e f have "res = Some [(slug_bigint, [''a''])]" by simp
  with s have k: "\<forall>m. map_of [(slug_bigint, [''a''])] m \<noteq> None \<longleftrightarrow>
           (\<exists>t \<in> visited_tables [(''a'', summary_a1)] state_branch.
              transform_of state_branch t (live_sha [(''a'', summary_a1)] t) = Some m)"
    and g: "\<forall>m. set (dict_get [(slug_bigint, [''a''])] m []) =
           {t \<in> visited_tables [(''a'', summary_a1)] state_branch.
              transform_of state_branch t (live_sha [(''a'', summary_a1)] t) = Some m}"
    by blast+
  from k have "map_of [(slug_bigint, [''a''])] slug_bigint \<noteq> None \<longleftrightarrow>
           (\<exists>t \<in> visited_tables [(''a'', summary_a1)] state_branch.
              transform_of state_branch t (live_sha [(''a'', summary_a1)] t) = Some slug_bigint)"
    by (rule spec)
  then have a: "\<exists>t. t \<in> visited_tables [(''a'', summary_a1)] state_branch
          \<and> transform_of state_branch t (live_sha [(''a'', summary_a1)] t) = Some slug_bigint"
    by (simp add: Bex_def)
  from g have "set (dict_get [(slug_bigint, [''a''])] slug_bigint []) =
           {t \<in> visited_tables [(''a'', summary_a1)] state_branch.
              transform_of state_branch t (live_sha [(''a'', summary_a1)] t) = Some slug_bigint}"
    by (rule spec)
  then have b: "{t \<in> visited_tables [(''a'', summary_a1)] state_branch.
         transform_of state_branch t (live_sha [(''a'', summary_a1)] t) = Some slug_bigint} = {''a''}"
    by (simp add: dict_get_def)
  from r f a b show ?thesis by blast
qed

section \<open>Tables absent from the live database\<close>

lemma map_of_snap_to_shas: "map_of (snap_to_shas snap) = map_option sha \<circ> map_of snap"
  by (simp add: snap_to_shas_def map_of_map)

lemma live_sha_update_absent:
  assumes "map_of db_snap table = None"
  shows "live_sha (AList.update table \<lparr>sql = text, sha = EMPTYSHA\<rparr> db_snap) t = live_sha db_snap t"
  using assms
  by (simp add: live_sha_def dict_get_def map_of_snap_to_shas update_conv')

lemma check_validity_live_sha:
  assumes "\<And>t. live_sha snap' t = live_sha snap t"
  shows "check_validity slug snap' postrun st = check_validity slug snap postrun st"
proof -
  have "\<And>mig. violation mig (snap_to_shas snap') postrun = violation mig (snap_to_shas snap) postrun"
    using assms by (simp add: violation_def fun_eq_iff live_sha_def)
  then show ?thesis by (simp add: check_validity_def Let_def split: option.splits)
qed

lemma resolve_table_live_sha:
  assumes "\<And>t. live_sha snap' t = live_sha snap t"
  shows "resolve_table st (snap_to_shas snap') = resolve_table st (snap_to_shas snap)"
  using assms by (simp add: resolve_table_def fun_eq_iff live_sha_def)

lemma report_migs_live_sha:
  assumes "\<And>t. live_sha snap' t = live_sha snap t"
  shows "report_migs st snap' nm = report_migs st snap nm"
  by (induction nm) (auto simp add: check_validity_live_sha [OF assms] split: sum.splits)

lemma keys_update_absent: "map_of d k = None \<Longrightarrow> keys (AList.update k v d) = keys d @ [k]"
  by (induction d) (auto simp add: keys_def)

lemma remdups_append_known: "k \<in> set ys \<Longrightarrow> remdups (xs @ k # ys) = remdups (xs @ ys)"
  by (induction xs) auto

lemma key_union_update_known:
  assumes "map_of d k = None" and "map_of e k \<noteq> None"
  shows "key_union (AList.update k v d) e = key_union d e"
proof -
  from assms(2) have "k \<in> set (keys e)"
    by (simp add: keys_def map_of_eq_None_iff)
  then show ?thesis
    by (simp add: key_union_def keys_update_absent [OF assms(1)] remdups_append_known)
qed

lemma keys_db_summary: "set (keys (db_summary list_tables show_create)) = set list_tables"
proof -
  have "\<And>d. set (keys (foldl (\<lambda>d t. AList.update t (table_summary (show_create t)) d) d list_tables))
        = set (keys d) \<union> set list_tables"
  proof (induction list_tables)
    case Nil
    then show ?case by simp
  next
    case (Cons t ts)
    have "set (keys (AList.update t (table_summary (show_create t)) d)) = insert t (set (keys d))"
      using dom_update [of t "table_summary (show_create t)" d]
      by (simp add: keys_def dom_map_of_conv_image_fst)
    then show ?case by (simp add: Cons.IH)
  qed
  then show ?thesis by (simp add: db_summary_def keys_def)
qed

text \<open>
  C7, as stated: a snapshot never omits a table, and resolution and validation treat a
  snapshot without a table as the same snapshot with the table under the hash of the
  empty text. A database without tables gives the empty snapshot; on it, after the first
  migration of the worked history, simple resolution returns that migration, and on the
  snapshot that has \<^verbatim>\<open>a\<close> under the hash of the empty text it returns none.
\<close>

theorem simple_resolution_tells_absent_from_empty:
  "db_summary [] (\<lambda>t. []) = []
   \<and> table_summary [] = \<lparr>sql = [], sha = EMPTYSHA\<rparr>
   \<and> map_of (tables state_init) ''a'' \<noteq> None
   \<and> find_next_migration_simple [] state_init = Some slug_init
   \<and> find_next_migration_simple (AList.update ''a'' \<lparr>sql = [], sha = EMPTYSHA\<rparr> []) state_init = None"
  by (simp add: db_summary_def table_summary_def EMPTYSHA_def [symmetric] state_init_value
        find_next_migration_simple_def snap_to_shas_def snap_sha_nil example_defs)

text \<open>
  C7, amended. A snapshot has an entry for each table the database lists and for no
  other; for a table without entry, validation behaves as for the snapshot that has the
  table under the hash of the empty text, and so does advanced resolution when the table
  has a history in the store. (The joint hash of simple resolution and of the up-to-date
  check is taken over the entries of the snapshot alone.)
\<close>

theorem absent_table_read_as_empty_hash:
  assumes "map_of db_snap table = None"
  shows "check_validity slug (AList.update table \<lparr>sql = text, sha = EMPTYSHA\<rparr> db_snap) postrun st =
           check_validity slug db_snap postrun st
       \<and> (map_of (tables st) table \<noteq> None \<longrightarrow>
            find_next_migration_advanced (AList.update table \<lparr>sql = text, sha = EMPTYSHA\<rparr> db_snap) st =
              find_next_migration_advanced db_snap st)
       \<and> set (keys (db_summary list_tables show_create)) = set list_tables"
proof (intro conjI impI)
  let ?snap' = "AList.update table \<lparr>sql = text, sha = EMPTYSHA\<rparr> db_snap"
  have l: "\<And>t. live_sha ?snap' t = live_sha db_snap t"
    using assms by (rule live_sha_update_absent)
  show "check_validity slug ?snap' postrun st = check_validity slug db_snap postrun st"
    using l by (rule check_validity_live_sha)
  show "set (keys (db_summary list_tables show_create)) = set list_tables"
    by (rule keys_db_summary)
  assume "map_of (tables st) table \<noteq> None"
  with assms have "key_union ?snap' (tables st) = key_union db_snap (tables st)"
    by (rule key_union_update_known)
  then have "resolve_tables ?snap' st = resolve_tables db_snap st"
    by (simp add: resolve_tables_def resolve_table_live_sha [OF l])
  then show "find_next_migration_advanced ?snap' st = find_next_migration_advanced db_snap st"
    by (simp add: find_next_migration_advanced_def report_migs_live_sha [OF l])
qed

theorem absent_table_read_as_empty_hash_witness:
  "map_of ([] :: snapshot) ''a'' = None
   \<and> map_of (tables state_name) ''a'' \<noteq> None
   \<and> check_validity slug_name (AList.update ''a'' \<lparr>sql = [], sha = EMPTYSHA\<rparr> []) False state_name =
       check_validity slug_name [] False state_name
   \<and> find_next_migration_advanced (AList.update ''a'' \<lparr>sql = [], sha = EMPTYSHA\<rparr> []) state_name =
       find_next_migration_advanced [] state_name
   \<and> find_next_migration_advanced [] state_name =
       Inr (report_lines slug_init [''a''] None, Some [(slug_init, [''a''])])"
proof -
  have a: "map_of ([] :: snapshot) ''a'' = None" by simp
  have k: "map_of (tables state_name) ''a'' \<noteq> None" by (simp add: state_name_value)
  have v: "find_next_migration_advanced [] state_name =
       Inr (report_lines slug_init [''a''] None, Some [(slug_init, [''a''])])"
    by (simp add: advanced_eval state_name_value example_defs)
  note inst = absent_table_read_as_empty_hash [OF a, of slug_name "[]" False state_name]
  from inst have c: "check_validity slug_name (AList.update ''a'' \<lparr>sql = [], sha = EMPTYSHA\<rparr> []) False state_name =
       check_validity slug_name [] False state_name" by (rule conjunct1)
  from inst k have f: "find_next_migration_advanced (AList.update ''a'' \<lparr>sql = [], sha = EMPTYSHA\<rparr> []) state_name =
       find_next_migration_advanced [] state_name" by blast
  from a k c f v show ?thesis by blast
qed

end
